theory Spec2Isabelle
  imports Complex_Main "HOL-Library.Multiset"
begin

section \<open>Numbers and colors\<close>

text \<open>
  The program is a JavaScript palette generator.  A color is an array \<open>[r, g, b]\<close> of
  numbers; every color the program stores has integer channels, so a color is a triple of
  integers.  The fractional quantities (hue, saturation, lightness, Lab coordinates) are
  IEEE doubles in the program.  The functions of this first part compute with real
  numbers: they are the exact-arithmetic reading of the code, on which the round trips,
  the identity of the profile \<open>none\<close> and the runs of the pipeline are stated.  The
  section on double precision below gives the conversions, the harmonizer, the variations
  generator and the range filter with every operation rounded to a double, as the program
  computes them (their names end in \<open>D\<close>); what depends on the rounding is stated on
  those.  Where the code can divide by zero the model says so explicitly
  (see \<open>jsDiv\<close> below); every other divisor is a non-zero constant, is guarded by a
  test of the code, or is shown non-zero for colors with channels in 0..255 (lemmas
  \<open>hslOfUnit_divisors\<close> and \<open>hslOfUnitD_divisors\<close>).
\<close>

type_synonym rgb = "int \<times> int \<times> int"

definition validChannel :: "int \<Rightarrow> bool" where
  "validChannel c = (0 \<le> c \<and> c \<le> 255)"

definition validColor :: "rgb \<Rightarrow> bool" where
  "validColor c = (case c of (r, g, b) \<Rightarrow> validChannel r \<and> validChannel g \<and> validChannel b)"

text \<open>\<open>Math.round\<close>: the nearest integer, a tie going up.\<close>

definition jsRound :: "real \<Rightarrow> int" where
  "jsRound x = \<lfloor>x + 1 / 2\<rfloor>"

subsection \<open>Color-space conversions\<close>

text \<open>
  \<open>rgbToHsl(r, g, b)\<close>, always called as \<open>rgbToHsl(...color)\<close>: the three channels
  are divided by 255 (\<open>r /= 255\<close> and so on) and the rest of the body, \<open>hslOfUnit\<close>,
  works on the quotients.  The \<open>switch (max)\<close> takes the first of \<open>case r\<close>,
  \<open>case g\<close>, \<open>case b\<close> that equals \<open>max\<close>; one of them always does.  The result is
  the array \<open>[h, s, l]\<close>.
\<close>

definition hslOfUnit :: "real \<Rightarrow> real \<Rightarrow> real \<Rightarrow> real \<times> real \<times> real" where
  "hslOfUnit r g b =
     (let mx = max r (max g b); mn = min r (min g b);
          l = (mx + mn) / 2
      in if mx = mn then (0, 0, l)
         else
           let d = mx - mn;
               s = (if l > 0.5 then d / (2 - mx - mn) else d / (mx + mn));
               h = (if mx = r then (g - b) / d + (if g < b then 6 else 0)
                    else if mx = g then (b - r) / d + 2
                    else (r - g) / d + 4)
           in (h / 6, s, l))"

definition rgbToHsl :: "rgb \<Rightarrow> real \<times> real \<times> real" where
  "rgbToHsl c = (case c of (r, g, b) \<Rightarrow>
     hslOfUnit (real_of_int r / 255) (real_of_int g / 255) (real_of_int b / 255))"

definition hslHue :: "rgb \<Rightarrow> real" where
  "hslHue c = (case rgbToHsl c of (h, s, l) \<Rightarrow> h)"

definition hslSaturation :: "rgb \<Rightarrow> real" where
  "hslSaturation c = (case rgbToHsl c of (h, s, l) \<Rightarrow> s)"

definition hslLightness :: "rgb \<Rightarrow> real" where
  "hslLightness c = (case rgbToHsl c of (h, s, l) \<Rightarrow> l)"

text \<open>The inner function \<open>hue2rgb(p, q, t)\<close> of \<open>hslToRgb\<close>; \<open>t\<close> is reassigned twice.\<close>

definition hue2rgb :: "real \<Rightarrow> real \<Rightarrow> real \<Rightarrow> real" where
  "hue2rgb p q t0 =
     (let t1 = (if t0 < 0 then t0 + 1 else t0);
          t = (if t1 > 1 then t1 - 1 else t1)
      in if t < 1 / 6 then p + (q - p) * 6 * t
         else if t < 1 / 2 then q
         else if t < 2 / 3 then p + (q - p) * (2 / 3 - t) * 6
         else p)"

text \<open>The locals \<open>r, g, b\<close> of \<open>hslToRgb\<close> before the final rounding.\<close>

definition hslToUnit :: "real \<Rightarrow> real \<Rightarrow> real \<Rightarrow> real \<times> real \<times> real" where
  "hslToUnit h s l =
     (if s = 0 then (l, l, l)
      else
        let q = (if l < 0.5 then l * (1 + s) else l + s - l * s);
            p = 2 * l - q
        in (hue2rgb p q (h + 1 / 3), hue2rgb p q h, hue2rgb p q (h - 1 / 3)))"

definition hslToRgb :: "real \<Rightarrow> real \<Rightarrow> real \<Rightarrow> rgb" where
  "hslToRgb h s l = (case hslToUnit h s l of (r, g, b) \<Rightarrow>
     (jsRound (r * 255), jsRound (g * 255), jsRound (b * 255)))"

definition hsvOfUnit :: "real \<Rightarrow> real \<Rightarrow> real \<Rightarrow> real \<times> real \<times> real" where
  "hsvOfUnit r g b =
     (let mx = max r (max g b); mn = min r (min g b);
          d = mx - mn;
          v = mx;
          s = (if mx = 0 then 0 else d / mx);
          h = (if mx = mn then 0
               else (if mx = r then (g - b) / d + (if g < b then 6 else 0)
                     else if mx = g then (b - r) / d + 2
                     else (r - g) / d + 4) / 6)
      in (h, s, v))"

definition rgbToHsv :: "rgb \<Rightarrow> real \<times> real \<times> real" where
  "rgbToHsv c = (case c of (r, g, b) \<Rightarrow>
     hsvOfUnit (real_of_int r / 255) (real_of_int g / 255) (real_of_int b / 255))"

text \<open>
  The remainder operator \<open>%\<close> on integers: the sign of the result is the sign of the
  dividend.
\<close>

definition jsRem :: "int \<Rightarrow> int \<Rightarrow> int" where
  "jsRem a n = (if a < 0 then - ((- a) mod n) else a mod n)"

text \<open>
  \<open>hsvToRgb(h, s, v)\<close>.  The \<open>switch (i % 6)\<close> has the cases 0 to 5 and no default: when
  none matches (a negative remainder), \<open>r, g, b\<close> stay undefined and the three channels are
  \<open>NaN\<close>, which is the value \<open>None\<close> here.  \<open>hsvToUnit\<close> is the function up to the
  \<open>switch\<close>; the \<open>return\<close> rounds.
\<close>

definition hsvToUnit :: "real \<Rightarrow> real \<Rightarrow> real \<Rightarrow> (real \<times> real \<times> real) option" where
  "hsvToUnit h s v =
     (let i = \<lfloor>h * 6\<rfloor>;
          f = h * 6 - real_of_int i;
          p = v * (1 - s);
          q = v * (1 - f * s);
          t = v * (1 - (1 - f) * s);
          k = jsRem i 6
      in if k = 0 then Some (v, t, p)
         else if k = 1 then Some (q, v, p)
         else if k = 2 then Some (p, v, t)
         else if k = 3 then Some (p, q, v)
         else if k = 4 then Some (t, p, v)
         else if k = 5 then Some (v, p, q)
         else None)"

definition hsvToRgb :: "real \<Rightarrow> real \<Rightarrow> real \<Rightarrow> rgb option" where
  "hsvToRgb h s v =
     (case hsvToUnit h s v of
        None \<Rightarrow> None
      | Some (r, g, b) \<Rightarrow> Some (jsRound (r * 255), jsRound (g * 255), jsRound (b * 255)))"

text \<open>Two colors that differ by at most 1 in each channel.\<close>

definition withinOne :: "rgb \<Rightarrow> rgb \<Rightarrow> bool" where
  "withinOne c c' = (case (c, c') of ((r, g, b), (r', g', b')) \<Rightarrow>
     \<bar>r - r'\<bar> \<le> 1 \<and> \<bar>g - g'\<bar> \<le> 1 \<and> \<bar>b - b'\<bar> \<le> 1)"

subsection \<open>Harmonization profiles\<close>

text \<open>
  A profile object.  Every profile of the tables has the four multiplier and shift fields;
  the two ranges are optional (\<open>none\<close> has neither).
\<close>

record profile =
  l_mult :: real
  s_mult :: real
  l_shift :: real
  s_shift :: real
  l_range :: "(real \<times> real) option"
  s_range :: "(real \<times> real) option"

definition mkProfile ::
  "real \<Rightarrow> real \<Rightarrow> real \<Rightarrow> real \<Rightarrow> (real \<times> real) option \<Rightarrow> (real \<times> real) option \<Rightarrow> profile" where
  "mkProfile lm sm lsh ssh lr sr =
     \<lparr> l_mult = lm, s_mult = sm, l_shift = lsh, s_shift = ssh, l_range = lr, s_range = sr \<rparr>"

definition noneProfile :: profile where
  "noneProfile = mkProfile 1.0 1.0 0.0 0.0 None None"

text \<open>The own properties of the object \<open>models\<close> in the newer file.\<close>

definition models :: "string \<Rightarrow> profile option" where
  "models name =
     (if name = ''70s'' then Some (mkProfile 0.85 0.7 0.1 0.0 (Some (0.3, 0.7)) (Some (0.4, 0.8)))
      else if name = ''80s'' then Some (mkProfile 1.2 1.3 0.0 0.1 (Some (0.4, 0.9)) (Some (0.6, 1.0)))
      else if name = ''vibrant'' then Some (mkProfile 1.0 1.4 0.0 0.2 (Some (0.3, 0.8)) (Some (0.7, 1.0)))
      else if name = ''neon'' then Some (mkProfile 1.3 1.5 0.1 0.3 (Some (0.6, 1.0)) (Some (0.8, 1.0)))
      else if name = ''pastel'' then Some (mkProfile 1.2 0.5 0.2 0.0 (Some (0.7, 0.95)) (Some (0.2, 0.6)))
      else if name = ''earthy'' then Some (mkProfile 0.9 0.7 0.0 (- 0.1) (Some (0.2, 0.6)) (Some (0.3, 0.7)))
      else if name = ''jewel'' then Some (mkProfile 0.8 1.2 0.0 0.1 (Some (0.3, 0.7)) (Some (0.8, 1.0)))
      else if name = ''none'' then Some noneProfile
      else None)"

text \<open>The own properties of \<open>models\<close> in \<open>src/App.jsx\<close>: five profiles, no \<open>none\<close>.\<close>

definition models_App :: "string \<Rightarrow> profile option" where
  "models_App name =
     (if name = ''70s'' then Some (mkProfile 0.85 0.7 0.1 0.0 (Some (0.3, 0.7)) (Some (0.4, 0.8)))
      else if name = ''80s'' then Some (mkProfile 1.2 1.3 0.0 0.1 (Some (0.4, 0.9)) (Some (0.6, 1.0)))
      else if name = ''vibrant'' then Some (mkProfile 1.0 1.4 0.0 0.2 (Some (0.3, 0.8)) (Some (0.7, 1.0)))
      else if name = ''neon'' then Some (mkProfile 1.3 1.5 0.1 0.3 (Some (0.6, 1.0)) (Some (0.8, 1.0)))
      else if name = ''pastel'' then Some (mkProfile 1.2 0.5 0.2 0.0 (Some (0.7, 0.95)) (Some (0.2, 0.6)))
      else None)"

text \<open>
  \<open>models[model]\<close> also finds what an object literal inherits from \<open>Object.prototype\<close>;
  each of these is a function or an object, hence truthy, and has none of the six fields.
\<close>

definition inheritedNames :: "string list" where
  "inheritedNames =
     [''constructor'', ''hasOwnProperty'', ''isPrototypeOf'', ''propertyIsEnumerable'',
      ''toLocaleString'', ''toString'', ''valueOf'', ''__proto__'', ''__defineGetter__'',
      ''__defineSetter__'', ''__lookupGetter__'', ''__lookupSetter__'']"

text \<open>
  \<open>const params = models[model] || models.none\<close>, and in \<open>src/App.jsx\<close>
  \<open>models[model] || {}\<close>.  \<open>None\<close> is an object without any of the six fields (the empty
  object, or an inherited property).
\<close>

definition paramsOf :: "string \<Rightarrow> profile option" where
  "paramsOf name =
     (case models name of
        Some p \<Rightarrow> Some p
      | None \<Rightarrow> if name \<in> set inheritedNames then None else Some noneProfile)"

definition paramsOf_App :: "string \<Rightarrow> profile option" where
  "paramsOf_App name = models_App name"

text \<open>
  The body of the \<open>colors.map\<close> callback, statement by statement.  \<open>if (params.l_mult)\<close>
  holds when the field is there and is not zero.
\<close>

definition scaleShift :: "real \<Rightarrow> real \<Rightarrow> real \<Rightarrow> real" where
  "scaleShift factor shift x = (if factor \<noteq> 0 then x * factor + shift else x)"

definition clampRange :: "(real \<times> real) option \<Rightarrow> real \<Rightarrow> real" where
  "clampRange bounds x = (case bounds of None \<Rightarrow> x | Some (lo, hi) \<Rightarrow> max lo (min hi x))"

definition clampUnit :: "real \<Rightarrow> real" where
  "clampUnit x = min 1.0 (max 0.0 x)"

definition adjustLightness :: "profile option \<Rightarrow> real \<Rightarrow> real" where
  "adjustLightness params l0 =
     (let l1 = (case params of None \<Rightarrow> l0 | Some p \<Rightarrow> scaleShift (l_mult p) (l_shift p) l0);
          l2 = (case params of None \<Rightarrow> l1 | Some p \<Rightarrow> clampRange (l_range p) l1)
      in clampUnit l2)"

definition adjustSaturation :: "profile option \<Rightarrow> real \<Rightarrow> real" where
  "adjustSaturation params s0 =
     (let s1 = (case params of None \<Rightarrow> s0 | Some p \<Rightarrow> scaleShift (s_mult p) (s_shift p) s0);
          s2 = (case params of None \<Rightarrow> s1 | Some p \<Rightarrow> clampRange (s_range p) s1)
      in clampUnit s2)"

definition harmonizeColor :: "profile option \<Rightarrow> rgb \<Rightarrow> rgb" where
  "harmonizeColor params color = (case rgbToHsl color of (h, s, l) \<Rightarrow>
     hslToRgb h (adjustSaturation params s) (adjustLightness params l))"

definition harmonizeColors :: "rgb list \<Rightarrow> string \<Rightarrow> rgb list" where
  "harmonizeColors colors model = map (harmonizeColor (paramsOf model)) colors"

definition harmonizeColors_App :: "rgb list \<Rightarrow> string \<Rightarrow> rgb list" where
  "harmonizeColors_App colors model = map (harmonizeColor (paramsOf_App model)) colors"

subsection \<open>Perceptual distance\<close>

text \<open>
  \<open>rgbToLab\<close> of the newer file.  \<open>Math.pow\<close> with a positive base is \<open>powr\<close>; both
  bases here are positive.  The squares of \<open>deltaE\<close> are \<open>Math.pow(x, 2)\<close>, written as
  powers.
\<close>

definition gammaDecode :: "real \<Rightarrow> real" where
  "gammaDecode x = (if x > 0.04045 then ((x + 0.055) / 1.055) powr 2.4 else x / 12.92)"

definition labCurve :: "real \<Rightarrow> real" where
  "labCurve x = (if x > 0.008856 then x powr (1 / 3) else 7.787 * x + 16 / 116)"

definition rgbToLab :: "rgb \<Rightarrow> real \<times> real \<times> real" where
  "rgbToLab c = (case c of (r, g, b) \<Rightarrow>
     let x = gammaDecode (real_of_int r / 255) * 100;
         y = gammaDecode (real_of_int g / 255) * 100;
         z = gammaDecode (real_of_int b / 255) * 100;
         X = labCurve ((x * 0.4124 + y * 0.3576 + z * 0.1805) / 95.047);
         Y = labCurve ((x * 0.2126 + y * 0.7152 + z * 0.0722) / 100.0);
         Z = labCurve ((x * 0.0193 + y * 0.1192 + z * 0.9505) / 108.883)
     in (116 * Y - 16, 500 * (X - Y), 200 * (Y - Z)))"

definition deltaE :: "rgb \<Rightarrow> rgb \<Rightarrow> real" where
  "deltaE color1 color2 =
     (case rgbToLab color1 of (L1, a1, b1) \<Rightarrow>
      case rgbToLab color2 of (L2, a2, b2) \<Rightarrow>
        sqrt ((L2 - L1)\<^sup>2 + (a2 - a1)\<^sup>2 + (b2 - b1)\<^sup>2))"

text \<open>
  \<open>rgbToLab\<close> of \<open>src/App.jsx\<close> reassigns \<open>x\<close>, \<open>y\<close>, \<open>z\<close> one after the other, so the
  second and third rows of the matrix read the values just assigned.
\<close>

definition rgbToLab_App :: "rgb \<Rightarrow> real \<times> real \<times> real" where
  "rgbToLab_App c = (case c of (r, g, b) \<Rightarrow>
     let x0 = gammaDecode (real_of_int r / 255) * 100;
         y0 = gammaDecode (real_of_int g / 255) * 100;
         z0 = gammaDecode (real_of_int b / 255) * 100;
         x1 = x0 * 0.4124 + y0 * 0.3576 + z0 * 0.1805;
         y1 = x1 * 0.2126 + y0 * 0.7152 + z0 * 0.0722;
         z1 = x1 * 0.0193 + y1 * 0.1192 + z0 * 0.9505;
         x = labCurve (x1 / 95.047);
         y = labCurve (y1 / 100.0);
         z = labCurve (z1 / 108.883)
     in (116 * y - 16, 500 * (x - y), 200 * (y - z)))"

definition deltaE_App :: "rgb \<Rightarrow> rgb \<Rightarrow> real" where
  "deltaE_App color1 color2 =
     (case rgbToLab_App color1 of (l1, a1, b1) \<Rightarrow>
      case rgbToLab_App color2 of (l2, a2, b2) \<Rightarrow>
        sqrt ((l2 - l1)\<^sup>2 + (a2 - a1)\<^sup>2 + (b2 - b1)\<^sup>2))"

subsection \<open>Similarity filter\<close>

text \<open>The inner loop over \<open>filtered\<close>, which stops at the first color within the threshold.\<close>

fun similarToKept :: "rgb \<Rightarrow> rgb list \<Rightarrow> real \<Rightarrow> bool" where
  "similarToKept color [] threshold = False"
| "similarToKept color (existingColor # rest) threshold =
     (if deltaE color existingColor < threshold then True
      else similarToKept color rest threshold)"

text \<open>One round of the outer loop: \<open>if (!isSimilar) filtered.push(color)\<close>.\<close>

definition keepUnlessSimilar :: "real \<Rightarrow> rgb list \<Rightarrow> rgb \<Rightarrow> rgb list" where
  "keepUnlessSimilar threshold filtered color =
     (if similarToKept color filtered threshold then filtered else filtered @ [color])"

definition filterSimilarColors :: "rgb list \<Rightarrow> real \<Rightarrow> rgb list" where
  "filterSimilarColors colors threshold =
     (if length colors \<le> 1 then colors
      else foldl (keepUnlessSimilar threshold) [hd colors] (tl colors))"

text \<open>
  \<open>src/App.jsx\<close>: no early return, the loop starts from the empty list and the inner loop
  is \<open>filtered.some(...)\<close>.
\<close>

definition keepUnlessSimilar_App :: "real \<Rightarrow> rgb list \<Rightarrow> rgb \<Rightarrow> rgb list" where
  "keepUnlessSimilar_App threshold filtered color =
     (if list_ex (\<lambda>existingColor. deltaE_App color existingColor < threshold) filtered
      then filtered else filtered @ [color])"

definition filterSimilarColors_App :: "rgb list \<Rightarrow> real \<Rightarrow> rgb list" where
  "filterSimilarColors_App colors threshold = foldl (keepUnlessSimilar_App threshold) [] colors"

subsection \<open>Random numbers, division, remainder, sorting\<close>

text \<open>
  \<open>Math.random()\<close> returns a number that is at least 0 and less than 1.  The source of
  randomness is a parameter: the function \<open>rnd\<close> gives the result of each call, and the
  functions that call \<open>Math.random\<close> take the number of calls made so far and return the
  number of calls made when they are done.
\<close>

typedef unitReal = "{x :: real. 0 \<le> x \<and> x < 1}"
  by (rule exI [of _ 0]) simp

type_synonym randomSource = "nat \<Rightarrow> unitReal"

definition mathRandom :: "randomSource \<Rightarrow> nat \<Rightarrow> real" where
  "mathRandom rnd k = Rep_unitReal (rnd k)"

text \<open>\<open>Math.floor(Math.random() * n)\<close>\<close>

definition randomIndex :: "randomSource \<Rightarrow> nat \<Rightarrow> nat \<Rightarrow> nat" where
  "randomIndex rnd k n = nat \<lfloor>mathRandom rnd k * real n\<rfloor>"

text \<open>
  A quotient whose divisor can be zero.  \<open>None\<close> is a result that is not a finite number:
  \<open>NaN\<close> for 0/0, an infinity otherwise.
\<close>

definition jsDiv :: "real \<Rightarrow> real \<Rightarrow> real option" where
  "jsDiv x y = (if y = 0 then None else Some (x / y))"

text \<open>\<open>x % 1\<close> on numbers: what is left of \<open>x\<close> without its integer part, with the sign of \<open>x\<close>.\<close>

definition jsMod1 :: "real \<Rightarrow> real" where
  "jsMod1 x = x - real_of_int (if x < 0 then \<lceil>x\<rceil> else \<lfloor>x\<rfloor>)"

text \<open>
  A color produced by the palette generators: \<open>None\<close> is an array of three channels that
  are not finite numbers.  \<open>hslToRgb\<close> with a lightness that is not finite returns such an
  array, whatever the hue and the saturation: every path of \<open>hslToRgb\<close> computes each
  channel from \<open>l\<close>.
\<close>

type_synonym jscolor = "rgb option"

text \<open>
  \<open>Array.prototype.sort\<close> with a comparator is stable; a comparator result that is
  \<open>NaN\<close> counts as 0.  Insertion from the right end is a stable sort: an element goes in
  front of the first element it does not compare greater than.
\<close>

fun insertSorted :: "('a \<Rightarrow> 'a \<Rightarrow> real) \<Rightarrow> 'a \<Rightarrow> 'a list \<Rightarrow> 'a list" where
  "insertSorted cmp x [] = [x]"
| "insertSorted cmp x (y # ys) = (if cmp x y \<le> 0 then x # y # ys else y # insertSorted cmp x ys)"

definition jsSort :: "('a \<Rightarrow> 'a \<Rightarrow> real) \<Rightarrow> 'a list \<Rightarrow> 'a list" where
  "jsSort cmp xs = foldr (insertSorted cmp) xs []"

text \<open>
  The comparators: \<open>(a, b) => l2 - l1\<close> with \<open>l1\<close>, \<open>l2\<close> the HSL lightness of \<open>a\<close>,
  \<open>b\<close> (newer file), and \<open>(a, b) => rgbToHsl(...a)[2] - rgbToHsl(...b)[2]\<close>
  (\<open>src/App.jsx\<close>).  The lightness of a color with channels that are not finite is \<open>NaN\<close>.
\<close>

definition byLightnessDescending :: "jscolor \<Rightarrow> jscolor \<Rightarrow> real" where
  "byLightnessDescending a b =
     (case (a, b) of (Some ca, Some cb) \<Rightarrow> hslLightness cb - hslLightness ca | _ \<Rightarrow> 0)"

definition byLightnessAscending :: "jscolor \<Rightarrow> jscolor \<Rightarrow> real" where
  "byLightnessAscending a b =
     (case (a, b) of (Some ca, Some cb) \<Rightarrow> hslLightness ca - hslLightness cb | _ \<Rightarrow> 0)"

text \<open>A clock on which the time budget of the clustering is never used up.\<close>

definition neverTimedOut :: "nat \<Rightarrow> bool" where
  "neverTimedOut iter = False"

text \<open>A source of random numbers whose every result is one half: no jitter.\<close>

definition noJitter :: randomSource where
  "noJitter = (\<lambda>k. Abs_unitReal (1 / 2))"

subsection \<open>Palette expansion\<close>

text \<open>
  One round of the loop of \<open>generateColorVariations\<close>; round \<open>i\<close> makes the calls
  \<open>2 i\<close> and \<open>2 i + 1\<close> of \<open>Math.random\<close> counted from the start of the function.
  \<open>t = i / (numVariations - 1)\<close> is the quotient whose divisor is zero when
  \<open>numVariations\<close> is 1.
\<close>

definition hueJitter :: "randomSource \<Rightarrow> nat \<Rightarrow> real" where
  "hueJitter rnd k = (mathRandom rnd k - 0.5) * 0.05"

definition saturationJitter :: "randomSource \<Rightarrow> nat \<Rightarrow> real" where
  "saturationJitter rnd k = (mathRandom rnd k - 0.5) * 0.1"

definition variationAt :: "randomSource \<Rightarrow> nat \<Rightarrow> real \<Rightarrow> real \<Rightarrow> nat \<Rightarrow> nat \<Rightarrow> jscolor" where
  "variationAt rnd k0 baseH baseS numVariations i =
     (let t = jsDiv (real i) (real numVariations - 1);
          varH = jsMod1 (baseH + hueJitter rnd (k0 + 2 * i));
          varS = min 1 (max 0 (baseS + saturationJitter rnd (k0 + 2 * i + 1)))
      in case t of
           None \<Rightarrow> None
         | Some t \<Rightarrow> Some (hslToRgb varH varS (0.15 + 0.7 * t)))"

definition generateColorVariations :: "randomSource \<Rightarrow> nat \<Rightarrow> rgb \<Rightarrow> nat \<Rightarrow> jscolor list \<times> nat" where
  "generateColorVariations rnd k0 baseColor numVariations =
     (case rgbToHsl baseColor of (baseH, baseS, baseL) \<Rightarrow>
        let variations = map (variationAt rnd k0 baseH baseS numVariations) [0..<numVariations]
        in (jsSort byLightnessDescending variations, k0 + 2 * numVariations))"

text \<open>
  \<open>generateColorVariations\<close> of \<open>src/App.jsx\<close>: \<open>varL = 0.1 + (0.8 * i) / (numVariations - 1)\<close>,
  no random numbers, and an ascending sort.
\<close>

definition variationAt_App :: "real \<Rightarrow> real \<Rightarrow> nat \<Rightarrow> nat \<Rightarrow> jscolor" where
  "variationAt_App h s numVariations i =
     (case jsDiv (0.8 * real i) (real numVariations - 1) of
        None \<Rightarrow> None
      | Some u \<Rightarrow> Some (hslToRgb h s (0.1 + u)))"

definition generateColorVariations_App :: "rgb \<Rightarrow> nat \<Rightarrow> jscolor list" where
  "generateColorVariations_App baseColor numVariations =
     (case rgbToHsl baseColor of (h, s, l) \<Rightarrow>
        jsSort byLightnessAscending (map (variationAt_App h s numVariations) [0..<numVariations]))"

text \<open>\<open>Math.ceil(n / 2)\<close>, \<open>Math.floor(n / 2)\<close> and \<open>Math.ceil(n / 3)\<close> of a count.\<close>

definition generateComplementaryPalette ::
  "randomSource \<Rightarrow> nat \<Rightarrow> rgb \<Rightarrow> nat \<Rightarrow> jscolor list \<times> nat" where
  "generateComplementaryPalette rnd k0 baseColor numVariations =
     (case rgbToHsl baseColor of (h, s, l) \<Rightarrow>
        let compH = jsMod1 (h + 0.5);
            (baseVariations, k1) = generateColorVariations rnd k0 baseColor ((numVariations + 1) div 2);
            (compVariations, k2) = generateColorVariations rnd k1 (hslToRgb compH s l) (numVariations div 2)
        in (baseVariations @ compVariations, k2))"

definition generateTriadicPalette ::
  "randomSource \<Rightarrow> nat \<Rightarrow> rgb \<Rightarrow> nat \<Rightarrow> jscolor list \<times> nat" where
  "generateTriadicPalette rnd k0 baseColor numVariations =
     (case rgbToHsl baseColor of (h, s, l) \<Rightarrow>
        let triadH1 = jsMod1 (h + 1 / 3);
            triadH2 = jsMod1 (h + 2 / 3);
            baseCount = (numVariations + 2) div 3;
            triad1Count = (numVariations - baseCount) div 2;
            triad2Count = numVariations - baseCount - triad1Count;
            (baseVariations, k1) = generateColorVariations rnd k0 baseColor baseCount;
            (triad1Variations, k2) = generateColorVariations rnd k1 (hslToRgb triadH1 s l) triad1Count;
            (triad2Variations, k3) = generateColorVariations rnd k2 (hslToRgb triadH2 s l) triad2Count
        in (baseVariations @ triad1Variations @ triad2Variations, k3))"

definition analogousAt :: "real \<Rightarrow> real \<Rightarrow> nat \<Rightarrow> nat \<Rightarrow> jscolor" where
  "analogousAt h s numVariations i =
     (case jsDiv (real i) (real numVariations - 1) of
        None \<Rightarrow> None
      | Some t \<Rightarrow> Some (hslToRgb (jsMod1 (h + 0.08 * (t - 0.5))) s (0.15 + 0.7 * t)))"

definition generateAnalogousPalette :: "rgb \<Rightarrow> nat \<Rightarrow> jscolor list" where
  "generateAnalogousPalette baseColor numVariations =
     (case rgbToHsl baseColor of (h, s, l) \<Rightarrow>
        jsSort byLightnessDescending (map (analogousAt h s numVariations) [0..<numVariations]))"

definition monochromaticAt :: "real \<Rightarrow> real \<Rightarrow> nat \<Rightarrow> nat \<Rightarrow> jscolor" where
  "monochromaticAt h s numVariations i =
     (case jsDiv (real i) (real numVariations - 1) of
        None \<Rightarrow> None
      | Some t \<Rightarrow> Some (hslToRgb h s (0.15 + 0.7 * t)))"

definition generateMonochromaticPalette :: "rgb \<Rightarrow> nat \<Rightarrow> jscolor list" where
  "generateMonochromaticPalette baseColor numVariations =
     (case rgbToHsl baseColor of (h, s, l) \<Rightarrow>
        map (monochromaticAt h s numVariations) [0..<numVariations])"

text \<open>The \<open>switch (paletteType)\<close> of the image handler, with its \<open>default\<close>.\<close>

definition expandSeed :: "randomSource \<Rightarrow> nat \<Rightarrow> string \<Rightarrow> rgb \<Rightarrow> nat \<Rightarrow> jscolor list \<times> nat" where
  "expandSeed rnd k paletteType color n =
     (if paletteType = ''complementary'' then generateComplementaryPalette rnd k color n
      else if paletteType = ''triadic'' then generateTriadicPalette rnd k color n
      else if paletteType = ''analogous'' then (generateAnalogousPalette color n, k)
      else if paletteType = ''monochromatic'' then (generateMonochromaticPalette color n, k)
      else generateColorVariations rnd k color n)"

subsection \<open>Dominant colors\<close>

text \<open>
  \<open>getMedianColor\<close>: each channel sorted ascending on its own, the element at
  \<open>Math.floor(pixels.length / 2)\<close> taken, which is inside the array when it is not empty.
\<close>

definition getMedianColor :: "rgb list \<Rightarrow> rgb" where
  "getMedianColor pixels =
     (if length pixels = 0 then (0, 0, 0)
      else
        let rVals = sort (map (\<lambda>(r, g, b). r) pixels);
            gVals = sort (map (\<lambda>(r, g, b). g) pixels);
            bVals = sort (map (\<lambda>(r, g, b). b) pixels);
            mid = length pixels div 2
        in (rVals ! mid, gVals ! mid, bVals ! mid))"

text \<open>
  The seeding loop of \<open>kMeansClustering\<close>.  \<open>centroids\<close> holds one centroid before the
  loop starts and only grows, so it is the first centroid \<open>c0\<close> and the list \<open>later\<close> of
  the later ones; \<open>Math.min(Infinity, d)\<close> is \<open>d\<close> for the first centroid.
\<close>

definition nearestDistance :: "rgb \<Rightarrow> rgb \<Rightarrow> rgb list \<Rightarrow> real" where
  "nearestDistance pixel c0 later =
     fold (\<lambda>centroid minDistance. min minDistance (deltaE pixel centroid)) later (deltaE pixel c0)"

text \<open>
  The roulette loop: the index of the first sample whose cumulative distance reaches
  \<open>randomValue\<close>; \<open>None\<close> when the loop ends without a \<open>break\<close>.
\<close>

fun roulette :: "real list \<Rightarrow> real \<Rightarrow> real \<Rightarrow> nat \<Rightarrow> nat option" where
  "roulette [] cumulativeDistance randomValue j = None"
| "roulette (d # ds) cumulativeDistance randomValue j =
     (if cumulativeDistance + d \<ge> randomValue then Some j
      else roulette ds (cumulativeDistance + d) randomValue (j + 1))"

fun seedCentroids :: "randomSource \<Rightarrow> nat \<Rightarrow> rgb list \<Rightarrow> rgb \<Rightarrow> rgb list \<Rightarrow> nat \<Rightarrow> rgb list \<times> nat" where
  "seedCentroids rnd k sampledPixels c0 later 0 = (later, k)"
| "seedCentroids rnd k sampledPixels c0 later (Suc rounds) =
     (let distances = map (\<lambda>pixel. nearestDistance pixel c0 later) sampledPixels;
          totalDistance = sum_list distances;
          randomValue = mathRandom rnd k * totalDistance;
          later' = (case roulette distances 0 randomValue 0 of
                     None \<Rightarrow> later
                   | Some j \<Rightarrow> later @ [sampledPixels ! j])
      in seedCentroids rnd (k + 1) sampledPixels c0 later' rounds)"

text \<open>
  The assignment of a pixel: the first centroid at the least distance
  (\<open>distance < minDistance\<close>, with \<open>minDistance\<close> starting at \<open>Infinity\<close>, the value
  \<open>None\<close>, and \<open>clusterIndex\<close> at 0).
\<close>

definition nearestIndex :: "rgb \<Rightarrow> rgb list \<Rightarrow> nat" where
  "nearestIndex pixel centroids =
     snd (fold (\<lambda>i (minDistance, clusterIndex).
                  let distance = deltaE pixel (centroids ! i)
                  in if (case minDistance of None \<Rightarrow> True | Some m \<Rightarrow> distance < m)
                     then (Some distance, i) else (minDistance, clusterIndex))
            [0..<length centroids] (None, 0))"

definition clusterOf :: "rgb list \<Rightarrow> rgb list \<Rightarrow> nat \<Rightarrow> rgb list" where
  "clusterOf sampledPixels centroids i = filter (\<lambda>pixel. nearestIndex pixel centroids = i) sampledPixels"

text \<open>
  The update loop runs over \<open>i < k\<close>; a cluster beyond the centroids is empty and is
  skipped, so the loop acts on the centroids that exist.
\<close>

definition movesCentroid :: "rgb list \<Rightarrow> rgb \<Rightarrow> bool" where
  "movesCentroid cluster oldCentroid =
     (length cluster \<noteq> 0 \<and> deltaE (getMedianColor cluster) oldCentroid > 1)"

definition updateCentroids :: "rgb list \<Rightarrow> rgb list \<Rightarrow> rgb list" where
  "updateCentroids sampledPixels centroids =
     map (\<lambda>i. let cluster = clusterOf sampledPixels centroids i
              in if movesCentroid cluster (centroids ! i) then getMedianColor cluster
                 else centroids ! i)
       [0..<length centroids]"

definition centroidsChanged :: "rgb list \<Rightarrow> rgb list \<Rightarrow> bool" where
  "centroidsChanged sampledPixels centroids =
     list_ex (\<lambda>i. movesCentroid (clusterOf sampledPixels centroids i) (centroids ! i))
       [0..<length centroids]"

text \<open>
  The iteration loop.  \<open>timedOut iter\<close> says whether, at the start of round \<open>iter\<close>, more
  than \<open>timeoutMs\<close> have passed on the clock; the clock is outside the program.
\<close>

fun refineCentroids :: "(nat \<Rightarrow> bool) \<Rightarrow> rgb list \<Rightarrow> rgb list \<Rightarrow> nat \<Rightarrow> nat \<Rightarrow> rgb list" where
  "refineCentroids timedOut sampledPixels centroids iter 0 = centroids"
| "refineCentroids timedOut sampledPixels centroids iter (Suc rounds) =
     (if timedOut iter then centroids
      else
        let changed = centroidsChanged sampledPixels centroids;
            centroids' = updateCentroids sampledPixels centroids
        in if \<not> changed then centroids'
           else refineCentroids timedOut sampledPixels centroids' (iter + 1) rounds)"

definition kMeansClustering ::
  "randomSource \<Rightarrow> nat \<Rightarrow> (nat \<Rightarrow> bool) \<Rightarrow> rgb list \<Rightarrow> nat \<Rightarrow> nat \<Rightarrow> nat \<Rightarrow> rgb list \<times> nat" where
  "kMeansClustering rnd k0 timedOut pixels k maxIterations sampleSize =
     (if length pixels = 0 \<or> k = 0 then ([], k0)
      else
        let (sampledPixels, k1) =
              (if length pixels > sampleSize
               then (map (\<lambda>j. pixels ! randomIndex rnd (k0 + j) (length pixels)) [0..<sampleSize],
                     k0 + sampleSize)
               else (pixels, k0));
            c0 = sampledPixels ! randomIndex rnd k1 (length sampledPixels);
            (later, k2) = seedCentroids rnd (k1 + 1) sampledPixels c0 [] (k - 1)
        in (refineCentroids timedOut sampledPixels (c0 # later) 0 maxIterations, k2))"

text \<open>
  \<open>getDominantColors(pixels, count)\<close>, with \<open>nColors\<close> for the parameter \<open>count\<close>:
  with fewer pixels than \<open>count\<close>, \<open>count\<close> random picks, each
  \<open>pixels[...] || [0, 0, 0]\<close>; a pick outside the array is \<open>undefined\<close>, hence black.
\<close>

definition getDominantColors ::
  "randomSource \<Rightarrow> nat \<Rightarrow> (nat \<Rightarrow> bool) \<Rightarrow> rgb list \<Rightarrow> nat \<Rightarrow> rgb list \<times> nat" where
  "getDominantColors rnd k0 timedOut pixels nColors =
     (if length pixels < nColors
      then (map (\<lambda>i. let j = randomIndex rnd (k0 + i) (length pixels)
                     in if j < length pixels then pixels ! j else (0, 0, 0))
              [0..<nColors],
            k0 + nColors)
      else kMeansClustering rnd k0 timedOut pixels nColors 10 1000)"

subsection \<open>The pipeline of the image handler\<close>

text \<open>
  The six categories in the order of \<open>categoryOrder\<close>, and the object \<open>categories\<close>; only
  the six names are ever looked up.
\<close>

definition categoryOrder :: "string list" where
  "categoryOrder = [''red'', ''orange'', ''yellow'', ''green'', ''blue'', ''purple'']"

definition categories :: "string \<Rightarrow> (real \<times> real) list" where
  "categories cat =
     (if cat = ''red'' then [(0.0, 0.0833), (0.9167, 1.0)]
      else if cat = ''orange'' then [(0.0833, 0.1667)]
      else if cat = ''yellow'' then [(0.1667, 0.25)]
      else if cat = ''green'' then [(0.25, 0.5)]
      else if cat = ''blue'' then [(0.5, 0.75)]
      else if cat = ''purple'' then [(0.75, 0.9167)]
      else [])"

definition inCategory :: "string \<Rightarrow> rgb \<Rightarrow> bool" where
  "inCategory cat p = (let h = hslHue p in list_ex (\<lambda>(low, high). h \<ge> low \<and> h < high) (categories cat))"

record config =
  extractionMethod :: string
  paletteType :: string
  colorsPerHue :: nat
  dominantColorCount :: nat
  harmonizeModel :: string
  similarityThreshold :: real

text \<open>One category of \<open>categoryOrder.forEach\<close>: the palette so far and the random calls so far.\<close>

definition categoryStep ::
  "randomSource \<Rightarrow> config \<Rightarrow> rgb list \<Rightarrow> jscolor list \<times> nat \<Rightarrow> string \<Rightarrow> jscolor list \<times> nat" where
  "categoryStep rnd cfg allPixels st cat =
     (case st of (newPalette, k) \<Rightarrow>
        let catPixels = filter (inCategory cat) allPixels
        in if length catPixels > 0
           then
             let dominant = getMedianColor catPixels;
                 (variations, k') = expandSeed rnd k (paletteType cfg) dominant (colorsPerHue cfg)
             in (newPalette @ variations, k')
           else (newPalette, k))"

text \<open>
  One color of \<open>dominantColors.forEach\<close>.  The count
  \<open>Math.floor(colorsPerHue / dominantColorCount)\<close> is computed inside the callback, so with
  no dominant color it is not computed at all; with one, \<open>dominantColorCount\<close> is not zero.
\<close>

definition dominantStep ::
  "randomSource \<Rightarrow> config \<Rightarrow> jscolor list \<times> nat \<Rightarrow> rgb \<Rightarrow> jscolor list \<times> nat" where
  "dominantStep rnd cfg st color =
     (case st of (newPalette, k) \<Rightarrow>
        let (variations, k') =
              expandSeed rnd k (paletteType cfg) color (colorsPerHue cfg div dominantColorCount cfg)
        in (newPalette @ variations, k'))"

definition rawPalette :: "randomSource \<Rightarrow> (nat \<Rightarrow> bool) \<Rightarrow> config \<Rightarrow> rgb list \<Rightarrow> jscolor list" where
  "rawPalette rnd timedOut cfg allPixels =
     (if extractionMethod cfg = ''categorical''
      then fst (foldl (categoryStep rnd cfg allPixels) ([], 0) categoryOrder)
      else
        let (dominantColors, k) = getDominantColors rnd 0 timedOut allPixels (dominantColorCount cfg)
        in fst (foldl (dominantStep rnd cfg) ([], k) dominantColors))"

text \<open>
  \<open>harmonizeColors\<close> on the raw palette: a color whose channels are not finite stays so
  (its hue, saturation and lightness are \<open>NaN\<close>, and so is everything computed from them).
\<close>

definition harmonizeRaw :: "jscolor list \<Rightarrow> string \<Rightarrow> jscolor list" where
  "harmonizeRaw newPalette model = map (map_option (harmonizeColor (paramsOf model))) newPalette"

text \<open>
  The range filter: \<open>return l > 0.1 && l < 0.95 && s > 0.1\<close>.  A comparison with \<open>NaN\<close>
  is false, so a color whose channels are not finite is dropped.
\<close>

definition inRange :: "rgb \<Rightarrow> bool" where
  "inRange color = (case rgbToHsl color of (h, s, l) \<Rightarrow> l > 0.1 \<and> l < 0.95 \<and> s > 0.1)"

definition filteredPalette :: "jscolor list \<Rightarrow> rgb list" where
  "filteredPalette newPalette =
     concat (map (\<lambda>color. case color of None \<Rightarrow> [] | Some c \<Rightarrow> if inRange c then [c] else [])
               newPalette)"

text \<open>
  \<open>Array.from(new Set(similarityFiltered.map(JSON.stringify))).map(JSON.parse)\<close>: each
  color once, at its first place.
\<close>

definition uniqueColors :: "rgb list \<Rightarrow> rgb list" where
  "uniqueColors cs = foldl (\<lambda>seen c. if c \<in> set seen then seen else seen @ [c]) [] cs"

definition finalPalette :: "randomSource \<Rightarrow> (nat \<Rightarrow> bool) \<Rightarrow> config \<Rightarrow> rgb list \<Rightarrow> rgb list" where
  "finalPalette rnd timedOut cfg allPixels =
     (let newPalette = rawPalette rnd timedOut cfg allPixels;
          newPalette' = (if harmonizeModel cfg \<noteq> ''none''
                         then harmonizeRaw newPalette (harmonizeModel cfg) else newPalette)
      in uniqueColors (filterSimilarColors (filteredPalette newPalette') (similarityThreshold cfg)))"

subsection \<open>Hexadecimal formatting (\<open>formatColor\<close> in \<open>handleExport\<close>)\<close>

text \<open>
  \<open>c.toString(16)\<close> of an integer: lower-case digits, most significant first, a minus
  sign in front of a negative number.
\<close>

definition hexDigit :: "nat \<Rightarrow> char" where
  "hexDigit d = ''0123456789abcdef'' ! d"

fun digits16 :: "nat \<Rightarrow> string" where
  "digits16 n = (if n < 16 then [hexDigit n] else digits16 (n div 16) @ [hexDigit (n mod 16)])"

definition toString16 :: "int \<Rightarrow> string" where
  "toString16 c = (if c < 0 then CHR ''-'' # digits16 (nat (- c)) else digits16 (nat c))"

text \<open>
  \<open>s.slice(-2)\<close>: the last two characters, or all of a shorter string.  \<open>toUpperCase\<close>
  on the characters that occur here (digits, the letters a to f, the minus sign).
\<close>

definition sliceLast2 :: "string \<Rightarrow> string" where
  "sliceLast2 s = drop (length s - 2) s"

definition upperChar :: "char \<Rightarrow> char" where
  "upperChar c = (let n = (of_char c :: nat) in if 97 \<le> n \<and> n \<le> 122 then char_of (n - 32) else c)"

definition toUpperCase :: "string \<Rightarrow> string" where
  "toUpperCase s = map upperChar s"

text \<open>\<open>const toHex = (c) => `0${c.toString(16)}`.slice(-2).toUpperCase()\<close>\<close>

definition toHex :: "int \<Rightarrow> string" where
  "toHex c = toUpperCase (sliceLast2 (CHR ''0'' # toString16 c))"

text \<open>\<open>return `FF${toHex(b)}${toHex(g)}${toHex(r)}`\<close> (the same in both source files).\<close>

definition formatColor :: "int \<Rightarrow> int \<Rightarrow> int \<Rightarrow> string" where
  "formatColor r g b = ''FF'' @ toHex b @ toHex g @ toHex r"

record jsonOutput =
  colors :: "string list"

text \<open>
  \<open>handleExport\<close>: nothing is exported for an empty palette (the early return);
  otherwise the object \<open>{ colors: flatColors }\<close> is what gets serialised.
\<close>

definition handleExport :: "rgb list \<Rightarrow> jsonOutput option" where
  "handleExport palette =
     (if length palette = 0 then None
      else Some \<lparr> colors = map (\<lambda>(r, g, b). formatColor r g b) palette \<rparr>)"

text \<open>
  The layout the specification words: two upper-case hexadecimal digits per channel,
  zero-padded.
\<close>

definition upperHexDigit :: "nat \<Rightarrow> char" where
  "upperHexDigit d = ''0123456789ABCDEF'' ! d"

definition twoHexDigits :: "int \<Rightarrow> string" where
  "twoHexDigits c = [upperHexDigit (nat c div 16), upperHexDigit (nat c mod 16)]"

definition specEntry :: "rgb \<Rightarrow> string" where
  "specEntry c = (case c of (r, g, b) \<Rightarrow> ''FF'' @ twoHexDigits b @ twoHexDigits g @ twoHexDigits r)"

section \<open>Double precision\<close>

text \<open>
  The numbers of the program are IEEE doubles.  \<open>dbl x\<close> is the double nearest to the real
  number \<open>x\<close>: with \<open>e\<close> the exponent of \<open>x\<close> (\<open>2 ^ e \<le> |x| < 2 ^ (e + 1)\<close>, computed by
  \<open>expo\<close>), the quotient of \<open>|x|\<close> by \<open>2 ^ (e - 52)\<close> is rounded to the nearest integer, a
  tie going to the even one (\<open>rne\<close>), which leaves 53 significant bits.  The exponent is
  not bounded here: the model has neither overflow nor subnormal numbers, and the
  quantities of the color functions (channels, hue, saturation, lightness and what is
  computed from them) are zero or far inside the range of the normal doubles.

  Every arithmetic operation of the program returns the double nearest to the exact
  result: \<open>a + b\<close> of the code is \<open>dbl (a + b)\<close>, and likewise for \<open>-\<close>, \<open>*\<close> and \<open>/\<close>.  A
  decimal literal is the double nearest to it (\<open>0.1\<close> of the code is \<open>dbl 0.1\<close>); the
  integers that occur and \<open>0.5\<close> are doubles already.  Comparisons, \<open>Math.max\<close>,
  \<open>Math.min\<close>, \<open>%\<close> and \<open>Math.round\<close> are exact on doubles.
\<close>

definition pow2 :: "int \<Rightarrow> real" where
  "pow2 k = (if k \<ge> 0 then 2 ^ nat k else 1 / 2 ^ nat (- k))"

text \<open>The number of binary digits of a positive integer, less one.\<close>

fun ilog2 :: "nat \<Rightarrow> nat" where
  "ilog2 n = (if n < 2 then 0 else Suc (ilog2 (n div 2)))"

declare ilog2.simps [simp del]

definition expo :: "real \<Rightarrow> int" where
  "expo x = (if x \<ge> 1 then int (ilog2 (nat \<lfloor>x\<rfloor>))
             else - int (if \<lceil>1 / x\<rceil> \<le> 1 then 0 else Suc (ilog2 (nat (\<lceil>1 / x\<rceil> - 1)))))"

definition rne :: "real \<Rightarrow> int" where
  "rne x = (let f = \<lfloor>x\<rfloor>; r = x - real_of_int f
            in if r < 1 / 2 then f else if r > 1 / 2 then f + 1
               else if even f then f else f + 1)"

definition dblPos :: "real \<Rightarrow> real" where
  "dblPos x = real_of_int (rne (x * pow2 (52 - expo x))) * pow2 (expo x - 52)"

definition dbl :: "real \<Rightarrow> real" where
  "dbl x = (if x = 0 then 0 else if x > 0 then dblPos x else - dblPos (- x))"

subsection \<open>The conversions as the program computes them\<close>

text \<open>
  \<open>rgbToHsl\<close> and \<open>hslToRgb\<close> once more, operation by operation, each result rounded to
  a double.  In \<open>2 - max - min\<close> the left subtraction is done first; in
  \<open>(q - p) * 6 * t\<close> and \<open>(q - p) * (2 / 3 - t) * 6\<close> the products are taken from the left;
  \<open>1 / 3\<close>, \<open>1 / 6\<close> and \<open>2 / 3\<close> are quotients the program computes, \<open>1 / 2\<close> is exact.
  The divisors of \<open>rgbToHsl\<close> are not zero for colors with channels in 0..255 (lemma
  \<open>hslOfUnitD_divisors\<close>).
\<close>

definition hslOfUnitD :: "real \<Rightarrow> real \<Rightarrow> real \<Rightarrow> real \<times> real \<times> real" where
  "hslOfUnitD r g b =
     (let mx = max r (max g b); mn = min r (min g b);
          l = dbl (dbl (mx + mn) / 2)
      in if mx = mn then (0, 0, l)
         else
           let d = dbl (mx - mn);
               s = (if l > 0.5 then dbl (d / dbl (dbl (2 - mx) - mn)) else dbl (d / dbl (mx + mn)));
               h = (if mx = r then dbl (dbl (dbl (g - b) / d) + (if g < b then 6 else 0))
                    else if mx = g then dbl (dbl (dbl (b - r) / d) + 2)
                    else dbl (dbl (dbl (r - g) / d) + 4))
           in (dbl (h / 6), s, l))"

definition rgbToHslD :: "rgb \<Rightarrow> real \<times> real \<times> real" where
  "rgbToHslD c = (case c of (r, g, b) \<Rightarrow>
     hslOfUnitD (dbl (real_of_int r / 255)) (dbl (real_of_int g / 255)) (dbl (real_of_int b / 255)))"

definition hslHueD :: "rgb \<Rightarrow> real" where
  "hslHueD c = (case rgbToHslD c of (h, s, l) \<Rightarrow> h)"

definition hslSaturationD :: "rgb \<Rightarrow> real" where
  "hslSaturationD c = (case rgbToHslD c of (h, s, l) \<Rightarrow> s)"

definition hslLightnessD :: "rgb \<Rightarrow> real" where
  "hslLightnessD c = (case rgbToHslD c of (h, s, l) \<Rightarrow> l)"

definition hue2rgbD :: "real \<Rightarrow> real \<Rightarrow> real \<Rightarrow> real" where
  "hue2rgbD p q t0 =
     (let t1 = (if t0 < 0 then dbl (t0 + 1) else t0);
          t = (if t1 > 1 then dbl (t1 - 1) else t1)
      in if t < dbl (1 / 6) then dbl (p + dbl (dbl (dbl (q - p) * 6) * t))
         else if t < 1 / 2 then q
         else if t < dbl (2 / 3) then dbl (p + dbl (dbl (dbl (q - p) * dbl (dbl (2 / 3) - t)) * 6))
         else p)"

definition hslToUnitD :: "real \<Rightarrow> real \<Rightarrow> real \<Rightarrow> real \<times> real \<times> real" where
  "hslToUnitD h s l =
     (if s = 0 then (l, l, l)
      else
        let q = (if l < 0.5 then dbl (l * dbl (1 + s)) else dbl (dbl (l + s) - dbl (l * s)));
            p = dbl (dbl (2 * l) - q)
        in (hue2rgbD p q (dbl (h + dbl (1 / 3))), hue2rgbD p q h, hue2rgbD p q (dbl (h - dbl (1 / 3)))))"

definition hslToRgbD :: "real \<Rightarrow> real \<Rightarrow> real \<Rightarrow> rgb" where
  "hslToRgbD h s l = (case hslToUnitD h s l of (r, g, b) \<Rightarrow>
     (jsRound (dbl (r * 255)), jsRound (dbl (g * 255)), jsRound (dbl (b * 255))))"

subsection \<open>The harmonizer as the program computes it\<close>

text \<open>
  The fields of a profile are decimal literals of the tables: reading one gives the double
  nearest to it.  \<open>l * params.l_mult + params.l_shift\<close> rounds the product and the sum.
\<close>

definition scaleShiftD :: "real \<Rightarrow> real \<Rightarrow> real \<Rightarrow> real" where
  "scaleShiftD factor shift x = (if dbl factor \<noteq> 0 then dbl (dbl (x * dbl factor) + dbl shift) else x)"

definition clampRangeD :: "(real \<times> real) option \<Rightarrow> real \<Rightarrow> real" where
  "clampRangeD bounds x = (case bounds of None \<Rightarrow> x | Some (lo, hi) \<Rightarrow> max (dbl lo) (min (dbl hi) x))"

definition adjustLightnessD :: "profile option \<Rightarrow> real \<Rightarrow> real" where
  "adjustLightnessD params l0 =
     (let l1 = (case params of None \<Rightarrow> l0 | Some p \<Rightarrow> scaleShiftD (l_mult p) (l_shift p) l0);
          l2 = (case params of None \<Rightarrow> l1 | Some p \<Rightarrow> clampRangeD (l_range p) l1)
      in clampUnit l2)"

definition adjustSaturationD :: "profile option \<Rightarrow> real \<Rightarrow> real" where
  "adjustSaturationD params s0 =
     (let s1 = (case params of None \<Rightarrow> s0 | Some p \<Rightarrow> scaleShiftD (s_mult p) (s_shift p) s0);
          s2 = (case params of None \<Rightarrow> s1 | Some p \<Rightarrow> clampRangeD (s_range p) s1)
      in clampUnit s2)"

definition harmonizeColorD :: "profile option \<Rightarrow> rgb \<Rightarrow> rgb" where
  "harmonizeColorD params color = (case rgbToHslD color of (h, s, l) \<Rightarrow>
     hslToRgbD h (adjustSaturationD params s) (adjustLightnessD params l))"

definition harmonizeColorsD :: "rgb list \<Rightarrow> string \<Rightarrow> rgb list" where
  "harmonizeColorsD palette model = map (harmonizeColorD (paramsOf model)) palette"

definition harmonizeColorsD_App :: "rgb list \<Rightarrow> string \<Rightarrow> rgb list" where
  "harmonizeColorsD_App palette model = map (harmonizeColorD (paramsOf_App model)) palette"

subsection \<open>The variations generator as the program computes it\<close>

text \<open>
  The comparators of the two sorts return the rounded difference of two lightness
  values.  In \<open>generateColorVariations\<close> of the newer file \<open>t = i / (numVariations - 1)\<close>,
  \<open>0.7 * t\<close> and the sum with \<open>0.15\<close> are rounded in turn, and so are the difference, the
  product and the sum of each jitter; the result of \<open>Math.random()\<close> is a double, and the
  functions are defined for any number that is at least 0 and less than 1.  In
  \<open>src/App.jsx\<close> the product \<open>0.8 * i\<close> is rounded before the division.
\<close>

definition byLightnessDescendingD :: "jscolor \<Rightarrow> jscolor \<Rightarrow> real" where
  "byLightnessDescendingD a b =
     (case (a, b) of (Some ca, Some cb) \<Rightarrow> dbl (hslLightnessD cb - hslLightnessD ca) | _ \<Rightarrow> 0)"

definition byLightnessAscendingD :: "jscolor \<Rightarrow> jscolor \<Rightarrow> real" where
  "byLightnessAscendingD a b =
     (case (a, b) of (Some ca, Some cb) \<Rightarrow> dbl (hslLightnessD ca - hslLightnessD cb) | _ \<Rightarrow> 0)"

definition hueJitterD :: "randomSource \<Rightarrow> nat \<Rightarrow> real" where
  "hueJitterD rnd k = dbl (dbl (mathRandom rnd k - 0.5) * dbl 0.05)"

definition saturationJitterD :: "randomSource \<Rightarrow> nat \<Rightarrow> real" where
  "saturationJitterD rnd k = dbl (dbl (mathRandom rnd k - 0.5) * dbl 0.1)"

definition variationAtD :: "randomSource \<Rightarrow> nat \<Rightarrow> real \<Rightarrow> real \<Rightarrow> nat \<Rightarrow> nat \<Rightarrow> jscolor" where
  "variationAtD rnd k0 baseH baseS numVariations i =
     (let t = jsDiv (real i) (real numVariations - 1);
          varH = jsMod1 (dbl (baseH + hueJitterD rnd (k0 + 2 * i)));
          varS = min 1 (max 0 (dbl (baseS + saturationJitterD rnd (k0 + 2 * i + 1))))
      in case t of
           None \<Rightarrow> None
         | Some t \<Rightarrow> Some (hslToRgbD varH varS (dbl (dbl 0.15 + dbl (dbl 0.7 * dbl t)))))"

definition generateColorVariationsD :: "randomSource \<Rightarrow> nat \<Rightarrow> rgb \<Rightarrow> nat \<Rightarrow> jscolor list \<times> nat" where
  "generateColorVariationsD rnd k0 baseColor numVariations =
     (case rgbToHslD baseColor of (baseH, baseS, baseL) \<Rightarrow>
        let variations = map (variationAtD rnd k0 baseH baseS numVariations) [0..<numVariations]
        in (jsSort byLightnessDescendingD variations, k0 + 2 * numVariations))"

definition variationAtD_App :: "real \<Rightarrow> real \<Rightarrow> nat \<Rightarrow> nat \<Rightarrow> jscolor" where
  "variationAtD_App h s numVariations i =
     (case jsDiv (dbl (dbl 0.8 * real i)) (real numVariations - 1) of
        None \<Rightarrow> None
      | Some u \<Rightarrow> Some (hslToRgbD h s (dbl (dbl 0.1 + dbl u))))"

definition generateColorVariationsD_App :: "rgb \<Rightarrow> nat \<Rightarrow> jscolor list" where
  "generateColorVariationsD_App baseColor numVariations =
     (case rgbToHslD baseColor of (h, s, l) \<Rightarrow>
        jsSort byLightnessAscendingD (map (variationAtD_App h s numVariations) [0..<numVariations]))"

subsection \<open>The range filter as the program computes it\<close>

text \<open>
  \<open>return l > 0.1 && l < 0.95 && s > 0.1\<close> in the newer file and
  \<open>return l > 0.1 && l < 0.95\<close> in \<open>src/App.jsx\<close>: the lightness and the saturation are
  the doubles that \<open>rgbToHsl\<close> returns, and the bounds are the doubles nearest to 0.1 and
  0.95.  A color whose channels are not finite is dropped.
\<close>

definition inRangeD :: "rgb \<Rightarrow> bool" where
  "inRangeD color = (case rgbToHslD color of (h, s, l) \<Rightarrow> l > dbl 0.1 \<and> l < dbl 0.95 \<and> s > dbl 0.1)"

definition filteredPaletteD :: "jscolor list \<Rightarrow> rgb list" where
  "filteredPaletteD newPalette =
     concat (map (\<lambda>color. case color of None \<Rightarrow> [] | Some c \<Rightarrow> if inRangeD c then [c] else [])
               newPalette)"

definition inRangeD_App :: "rgb \<Rightarrow> bool" where
  "inRangeD_App color = (case rgbToHslD color of (h, s, l) \<Rightarrow> l > dbl 0.1 \<and> l < dbl 0.95)"

definition filteredPaletteD_App :: "jscolor list \<Rightarrow> rgb list" where
  "filteredPaletteD_App newPalette =
     concat (map (\<lambda>color. case color of None \<Rightarrow> [] | Some c \<Rightarrow> if inRangeD_App c then [c] else [])
               newPalette)"

section \<open>Export format\<close>

lemma upper_hexDigit_table: "map upperChar ''0123456789abcdef'' = ''0123456789ABCDEF''"
  by (simp add: upperChar_def char_of_def bit_simps)

lemma upper_hexDigit: "d < 16 \<Longrightarrow> upperChar (hexDigit d) = upperHexDigit d"
proof -
  assume d: "d < 16"
  then have "upperChar (''0123456789abcdef'' ! d) = map upperChar ''0123456789abcdef'' ! d"
    by (intro nth_map [symmetric]) simp
  then show ?thesis
    by (simp only: upper_hexDigit_table hexDigit_def upperHexDigit_def)
qed

lemma digits16_small: "n < 16 \<Longrightarrow> digits16 n = [hexDigit n]"
  by simp

lemma digits16_byte: "16 \<le> n \<Longrightarrow> n < 256 \<Longrightarrow> digits16 n = [hexDigit (n div 16), hexDigit (n mod 16)]"
proof -
  assume a: "16 \<le> n" "n < 256"
  then have "n div 16 < 16" by simp
  then have "digits16 (n div 16) = [hexDigit (n div 16)]" by (rule digits16_small)
  with a show ?thesis by (subst digits16.simps) simp
qed

lemma toHex_byte: "validChannel c \<Longrightarrow> toHex c = twoHexDigits c"
proof -
  assume v: "validChannel c"
  then have c: "0 \<le> c" "nat c < 256" by (auto simp: validChannel_def)
  show ?thesis
  proof (cases "nat c < 16")
    case True
    then have d: "digits16 (nat c) = [hexDigit (nat c)]" by (rule digits16_small)
    have z: "upperChar CHR ''0'' = CHR ''0''" by (simp add: upperChar_def)
    have "upperHexDigit 0 = CHR ''0''" by (simp add: upperHexDigit_def)
    with True c d z show ?thesis
      by (simp add: toHex_def toString16_def sliceLast2_def toUpperCase_def twoHexDigits_def
          upper_hexDigit)
  next
    case False
    with c have "digits16 (nat c) = [hexDigit (nat c div 16), hexDigit (nat c mod 16)]"
      by (intro digits16_byte) auto
    moreover have "nat c div 16 < 16" "nat c mod 16 < 16" using c by auto
    ultimately show ?thesis using c
      by (simp add: toHex_def toString16_def sliceLast2_def toUpperCase_def twoHexDigits_def
          upper_hexDigit)
  qed
qed

lemma formatColor_layout:
  "validColor (r, g, b) \<Longrightarrow> formatColor r g b = specEntry (r, g, b)"
  by (simp add: validColor_def formatColor_def specEntry_def toHex_byte)

text \<open>
  Claim C1.  Every color with integer channels in 0..255 is exported as the eight
  characters \<open>FF\<close>, then the two upper-case, zero-padded hexadecimal digits of the blue
  channel, then of the green channel, then of the red channel; and the palette
  \<open>[[255,0,0]]\<close> is exported as the object whose \<open>colors\<close> are \<open>["FF0000FF"]\<close>.
\<close>

theorem C1_export_layout:
  "(palette \<noteq> [] \<and> list_all validColor palette \<longrightarrow>
      handleExport palette = Some \<lparr> colors = map specEntry palette \<rparr>
      \<and> list_all (\<lambda>e. length e = 8) (map specEntry palette))
   \<and> handleExport [(255, 0, 0)] = Some \<lparr> colors = [''FF0000FF''] \<rparr>"
proof -
  have entry: "list_all validColor p \<Longrightarrow> map (\<lambda>(r, g, b). formatColor r g b) p = map specEntry p" for p
    by (induction p) (auto simp: formatColor_layout)
  have len: "length (specEntry c) = 8" for c
    by (cases c) (simp add: specEntry_def twoHexDigits_def)
  have general: "palette \<noteq> [] \<and> list_all validColor palette \<longrightarrow>
      handleExport palette = Some \<lparr> colors = map specEntry palette \<rparr>
      \<and> list_all (\<lambda>e. length e = 8) (map specEntry palette)"
    by (simp add: handleExport_def entry len list_all_iff)
  have v: "list_all validColor [(255, 0, 0)]"
    by (simp add: validColor_def validChannel_def)
  have "specEntry (255, 0, 0) = ''FF0000FF''"
    by (simp add: specEntry_def twoHexDigits_def upperHexDigit_def)
  with entry [OF v] have example: "handleExport [(255, 0, 0)] = Some \<lparr> colors = [''FF0000FF''] \<rparr>"
    by (simp add: handleExport_def)
  from general example show ?thesis by blast
qed

theorem C1_export_layout_witness:
  "[(18, 171, 5) :: rgb] \<noteq> [] \<and> list_all validColor [(18, 171, 5)]
   \<and> handleExport [(18, 171, 5)] = Some \<lparr> colors = [''FF05AB12''] \<rparr>"
proof -
  have v: "[(18, 171, 5)] \<noteq> [] \<and> list_all validColor [(18, 171, 5)]"
    by (simp add: validColor_def validChannel_def)
  have "specEntry (18, 171, 5) = ''FF05AB12''"
    by (simp add: specEntry_def twoHexDigits_def upperHexDigit_def)
  with v C1_export_layout [of "[(18, 171, 5)]"] show ?thesis by simp
qed

section \<open>Round trips through HSL and HSV\<close>

text \<open>
  With \<open>mx\<close> and \<open>mn\<close> the greatest and the least channel of a color that is not gray,
  the \<open>q\<close> of \<open>hslToRgb\<close> is \<open>mx\<close> again, and the saturation is not zero.
\<close>

lemma hsl_q:
  fixes mx mn :: real
  assumes "mn < mx" "0 \<le> mn" "mx \<le> 1"
    and l_def: "l = (mx + mn) / 2"
    and s_def: "s = (if l > 0.5 then (mx - mn) / (2 - mx - mn) else (mx - mn) / (mx + mn))"
  shows "(if l < 0.5 then l * (1 + s) else l + s - l * s) = mx \<and> s \<noteq> 0"
proof (cases "l > 0.5")
  case True
  define D where "D = 2 - mx - mn"
  have D: "0 < D" using assms(1,3) by (simp add: D_def)
  have s: "s = (mx - mn) / D" using True by (simp add: s_def D_def)
  then have sD: "s * D = mx - mn" using D by simp
  have "l + s - l * s = l + (s * D) / 2" by (simp add: l_def D_def field_simps)
  also have "\<dots> = mx" unfolding sD l_def by (simp add: field_simps)
  finally have "l + s - l * s = mx" .
  moreover have "s \<noteq> 0" using s D assms(1) by simp
  ultimately show ?thesis using True by simp
next
  case False
  define D where "D = mx + mn"
  have D: "0 < D" using assms(1,2) by (simp add: D_def)
  have s: "s = (mx - mn) / D" using False by (simp add: s_def D_def)
  then have sD: "s * D = mx - mn" using D by simp
  have a: "l * (1 + s) = l + (s * D) / 2" by (simp add: l_def D_def field_simps)
  have b: "l + s - l * s = l + s * (2 - D) / 2" by (simp add: l_def D_def field_simps)
  have n: "s \<noteq> 0" using s D assms(1) by simp
  show ?thesis
  proof (cases "l < 0.5")
    case True
    have "l + (s * D) / 2 = mx" unfolding sD l_def by (simp add: field_simps)
    with a n True show ?thesis by simp
  next
    case F2: False
    with False have "l = 1 / 2" by simp
    then have D1: "D = 1" by (simp add: l_def D_def)
    with sD have s1: "s = mx - mn" by simp
    from b D1 have "l + s - l * s = l + s / 2" by simp
    also have "\<dots> = mx" unfolding l_def s1 by (simp add: field_simps)
    finally show ?thesis using F2 n by simp
  qed
qed


lemma hue2rgb_top:
  assumes "1 / 6 \<le> t" "t \<le> 1 / 2"
  shows "hue2rgb p q t = q"
proof (cases "t = 1 / 2")
  case True
  show ?thesis unfolding True by (simp add: hue2rgb_def Let_def field_simps)
next
  case False
  with assms show ?thesis by (simp add: hue2rgb_def Let_def)
qed

lemma hue2rgb_top_wrap:
  assumes "7 / 6 \<le> t" "t \<le> 3 / 2"
  shows "hue2rgb p q t = q"
proof (cases "t = 3 / 2")
  case True
  show ?thesis unfolding True by (simp add: hue2rgb_def Let_def field_simps)
next
  case False
  with assms show ?thesis by (simp add: hue2rgb_def Let_def)
qed

lemma hue2rgb_low: "2 / 3 \<le> t \<Longrightarrow> t \<le> 1 \<Longrightarrow> hue2rgb p q t = p"
  by (simp add: hue2rgb_def Let_def)

lemma hue2rgb_low_neg: "- 1 / 3 \<le> t \<Longrightarrow> t < 0 \<Longrightarrow> hue2rgb p q t = p"
  by (simp add: hue2rgb_def Let_def)

lemma hue2rgb_rise: "0 \<le> t \<Longrightarrow> t \<le> 1 / 6 \<Longrightarrow> hue2rgb p q t = p + (q - p) * 6 * t"
  by (simp add: hue2rgb_def Let_def field_simps)

lemma hue2rgb_rise_wrap: "1 < t \<Longrightarrow> t \<le> 7 / 6 \<Longrightarrow> hue2rgb p q t = p + (q - p) * 6 * (t - 1)"
  by (simp add: hue2rgb_def Let_def field_simps)

lemma hue2rgb_fall:
  assumes "1 / 2 \<le> t" "t \<le> 2 / 3"
  shows "hue2rgb p q t = p + (q - p) * (2 / 3 - t) * 6"
proof (cases "t = 2 / 3")
  case True
  show ?thesis unfolding True by (simp add: hue2rgb_def Let_def field_simps)
next
  case False
  with assms show ?thesis by (simp add: hue2rgb_def Let_def)
qed

lemma ratio_facts:
  fixes d n :: real
  assumes "0 < d"
  shows "d * (n / d) = n" "(n / d \<le> 1) = (n \<le> d)" "(n / d < 1) = (n < d)"
    "(0 \<le> n / d) = (0 \<le> n)" "(n / d < 0) = (n < 0)" "(- 1 \<le> n / d) = (- d \<le> n)"
    "(- 1 < n / d) = (- d < n)"
  using assms by (simp_all add: field_simps)


lemma hslToUnit_chromatic:
  fixes mx mn :: real
  assumes "mn < mx" "0 \<le> mn" "mx \<le> 1"
    and l: "l = (mx + mn) / 2"
    and s: "s = (if l > 0.5 then (mx - mn) / (2 - mx - mn) else (mx - mn) / (mx + mn))"
  shows "hslToUnit h s l = (hue2rgb mn mx (h + 1 / 3), hue2rgb mn mx h, hue2rgb mn mx (h - 1 / 3))"
proof -
  from hsl_q [OF assms]
  have q: "(if l < 0.5 then l * (1 + s) else l + s - l * s) = mx" and s0: "s \<noteq> 0"
    by blast+
  have p: "2 * l - mx = mn" unfolding l by (simp add: field_simps)
  show ?thesis
    unfolding hslToUnit_def Let_def q p using s0 by simp
qed

lemma hue_sectors:
  fixes r g b :: real
  assumes ne: "max r (max g b) \<noteq> min r (min g b)"
  defines "mx \<equiv> max r (max g b)"
  defines "mn \<equiv> min r (min g b)"
  defines "d \<equiv> mx - mn"
  defines "h \<equiv> (if mx = r then (g - b) / d + (if g < b then 6 else 0)
                  else if mx = g then (b - r) / d + 2
                  else (r - g) / d + 4) / 6"
  shows "hue2rgb mn mx (h + 1 / 3) = r \<and> hue2rgb mn mx h = g \<and> hue2rgb mn mx (h - 1 / 3) = b"
proof -
  have d: "0 < d" using ne by (auto simp: d_def mx_def mn_def)
  note rf = ratio_facts [OF d]
  have dd: "d = mx - mn" by (simp add: d_def)
  have le: "r \<le> mx" "g \<le> mx" "b \<le> mx" "mn \<le> r" "mn \<le> g" "mn \<le> b"
    by (simp_all add: mx_def mn_def)
  have "mx = r \<or> mx = g \<or> mx = b" by (simp add: mx_def max_def)
  then consider (Rp) "mx = r" "b \<le> g" | (Rm) "mx = r" "g < b" | (G) "mx \<noteq> r" "mx = g"
    | (B) "mx \<noteq> r" "mx \<noteq> g" "mx = b"
    using not_le by blast
  then show ?thesis
  proof cases
    case Rp
    then have mn: "mn = b" using le by (simp add: mn_def)
    define x where "x = (g - b) / d"
    have x: "d * x = g - b" "0 \<le> x" "x \<le> 1"
      unfolding x_def rf using le dd Rp mn by linarith+
    have h: "h = x / 6" using Rp by (simp add: h_def x_def add_divide_distrib)
    have "hue2rgb mn mx (h + 1 / 3) = mx" using x h by (intro hue2rgb_top) simp_all
    moreover have "hue2rgb mn mx h = mn + (mx - mn) * 6 * h" using x h by (intro hue2rgb_rise) simp_all
    moreover have "(mx - mn) * 6 * h = g - b"
    proof -
      have "(mx - mn) * 6 * h = d * x" unfolding h dd by (simp add: field_simps)
      then show ?thesis using x(1) by simp
    qed
    moreover have "hue2rgb mn mx (h - 1 / 3) = mn" using x h by (intro hue2rgb_low_neg) simp_all
    ultimately show ?thesis using Rp mn by simp
  next
    case Rm
    then have mn: "mn = g" using le by (simp add: mn_def)
    define x where "x = (g - b) / d"
    have x: "d * x = g - b" "- 1 \<le> x" "x < 0"
      unfolding x_def rf using le dd Rm mn by linarith+
    have h: "h = x / 6 + 1" using Rm by (simp add: h_def x_def add_divide_distrib)
    have "hue2rgb mn mx (h + 1 / 3) = mx" using x h by (intro hue2rgb_top_wrap) simp_all
    moreover have "hue2rgb mn mx h = mn" using x h by (intro hue2rgb_low) simp_all
    moreover have "hue2rgb mn mx (h - 1 / 3) = mn + (mx - mn) * (2 / 3 - (h - 1 / 3)) * 6"
      using x h by (intro hue2rgb_fall) simp_all
    moreover have "(mx - mn) * (2 / 3 - (h - 1 / 3)) * 6 = b - g"
    proof -
      have "(mx - mn) * (2 / 3 - (h - 1 / 3)) * 6 = - (d * x)" unfolding h dd by (simp add: field_simps)
      then show ?thesis using x(1) by simp
    qed
    ultimately show ?thesis using Rm mn by simp
  next
    case G
    then have rlt: "r < g" using le by simp
    define x where "x = (b - r) / d"
    have bg: "b \<le> g" using G le by simp
    have x: "d * x = b - r" "- 1 < x" "x \<le> 1"
      unfolding x_def rf using le dd G rlt bg by linarith+
    have h: "h = x / 6 + 1 / 3" using G by (simp add: h_def x_def add_divide_distrib)
    have top: "hue2rgb mn mx h = mx" using x h by (intro hue2rgb_top) simp_all
    show ?thesis
    proof (cases "b < r")
      case True
      then have mn: "mn = b" using rlt by (auto simp: mn_def)
      have xn: "x < 0" unfolding x_def rf using True by linarith
      have "hue2rgb mn mx (h + 1 / 3) = mn + (mx - mn) * (2 / 3 - (h + 1 / 3)) * 6"
        using x xn h by (intro hue2rgb_fall) simp_all
      moreover have "(mx - mn) * (2 / 3 - (h + 1 / 3)) * 6 = r - b"
    proof -
      have "(mx - mn) * (2 / 3 - (h + 1 / 3)) * 6 = - (d * x)" unfolding h dd by (simp add: field_simps)
      then show ?thesis using x(1) by simp
    qed
      moreover have "hue2rgb mn mx (h - 1 / 3) = mn" using x xn h by (intro hue2rgb_low_neg) simp_all
      ultimately show ?thesis using top G mn by simp
    next
      case False
      then have mn: "mn = r" using rlt by (auto simp: mn_def)
      have xn: "0 \<le> x" unfolding x_def rf using False by linarith
      have "hue2rgb mn mx (h + 1 / 3) = mn" using x xn h by (intro hue2rgb_low) simp_all
      moreover have "hue2rgb mn mx (h - 1 / 3) = mn + (mx - mn) * 6 * (h - 1 / 3)"
        using x xn h by (intro hue2rgb_rise) simp_all
      moreover have "(mx - mn) * 6 * (h - 1 / 3) = b - r"
    proof -
      have "(mx - mn) * 6 * (h - 1 / 3) = d * x" unfolding h dd by (simp add: field_simps)
      then show ?thesis using x(1) by simp
    qed
      ultimately show ?thesis using top G mn by simp
    qed
  next
    case B
    then have lt: "r < b" "g < b" using le by simp_all
    define x where "x = (r - g) / d"
    have x: "d * x = r - g" "- 1 < x" "x < 1"
      unfolding x_def rf using le dd B lt by linarith+
    have h: "h = x / 6 + 2 / 3" using B by (simp add: h_def x_def add_divide_distrib)
    have top: "hue2rgb mn mx (h - 1 / 3) = mx" using x h by (intro hue2rgb_top) simp_all
    show ?thesis
    proof (cases "g < r")
      case True
      then have mn: "mn = g" using lt by (auto simp: mn_def)
      have xn: "0 < x" using True d by (simp add: x_def zero_less_divide_iff)
      have "hue2rgb mn mx (h + 1 / 3) = mn + (mx - mn) * 6 * (h + 1 / 3 - 1)"
        using x xn h by (intro hue2rgb_rise_wrap) simp_all
      moreover have "(mx - mn) * 6 * (h + 1 / 3 - 1) = r - g"
    proof -
      have "(mx - mn) * 6 * (h + 1 / 3 - 1) = d * x" unfolding h dd by (simp add: field_simps)
      then show ?thesis using x(1) by simp
    qed
      moreover have "hue2rgb mn mx h = mn" using x xn h by (intro hue2rgb_low) simp_all
      ultimately show ?thesis using top B mn by simp
    next
      case False
      then have mn: "mn = r" using lt by (auto simp: mn_def)
      have xn: "x \<le> 0" using False d by (simp add: x_def divide_le_0_iff)
      have "hue2rgb mn mx (h + 1 / 3) = mn" using x xn h by (intro hue2rgb_low) simp_all
      moreover have "hue2rgb mn mx h = mn + (mx - mn) * (2 / 3 - h) * 6"
        using x xn h by (intro hue2rgb_fall) simp_all
      moreover have "(mx - mn) * (2 / 3 - h) * 6 = g - r"
    proof -
      have "(mx - mn) * (2 / 3 - h) * 6 = - (d * x)" unfolding h dd by (simp add: field_simps)
      then show ?thesis using x(1) by simp
    qed
      ultimately show ?thesis using top B mn by simp
    qed
  qed
qed


lemma hsl_unit_roundtrip:
  fixes r g b :: real
  assumes "0 \<le> r" "r \<le> 1" "0 \<le> g" "g \<le> 1" "0 \<le> b" "b \<le> 1"
  shows "(case hslOfUnit r g b of (h, s, l) \<Rightarrow> hslToUnit h s l) = (r, g, b)"
proof (cases "max r (max g b) = min r (min g b)")
  case True
  then have "r = g \<and> g = b" by (simp add: max_def min_def split: if_splits)
  then show ?thesis by (simp add: hslOfUnit_def hslToUnit_def)
next
  case False
  define mx where "mx = max r (max g b)"
  define mn where "mn = min r (min g b)"
  define l where "l = (mx + mn) / 2"
  define s where "s = (if l > 0.5 then (mx - mn) / (2 - mx - mn) else (mx - mn) / (mx + mn))"
  define h where "h = (if mx = r then (g - b) / (mx - mn) + (if g < b then 6 else 0)
                  else if mx = g then (b - r) / (mx - mn) + 2
                  else (r - g) / (mx - mn) + 4) / 6"
  have bounds: "mn < mx" "0 \<le> mn" "mx \<le> 1"
    using False assms by (simp_all add: mx_def mn_def)
  have "hslOfUnit r g b = (h, s, l)"
    using False by (simp add: hslOfUnit_def Let_def mx_def mn_def l_def s_def h_def)
  moreover have "hslToUnit h s l = (hue2rgb mn mx (h + 1 / 3), hue2rgb mn mx h, hue2rgb mn mx (h - 1 / 3))"
    using bounds l_def s_def by (rule hslToUnit_chromatic)
  moreover have "hue2rgb mn mx (h + 1 / 3) = r \<and> hue2rgb mn mx h = g \<and> hue2rgb mn mx (h - 1 / 3) = b"
    unfolding h_def mx_def mn_def by (rule hue_sectors [OF False])
  ultimately show ?thesis by simp
qed

lemma jsRound_of_int: "jsRound (real_of_int c) = c"
  by (simp add: jsRound_def)

lemma unit_channel: "validChannel c \<Longrightarrow> 0 \<le> real_of_int c / 255 \<and> real_of_int c / 255 \<le> 1"
  by (simp add: validChannel_def)

lemma hsl_roundtrip:
  assumes "validColor c"
  shows "(case rgbToHsl c of (h, s, l) \<Rightarrow> hslToRgb h s l) = c"
proof -
  obtain r g b where c: "c = (r, g, b)" by (cases c) auto
  from assms have v: "validChannel r" "validChannel g" "validChannel b"
    by (simp_all add: c validColor_def)
  obtain h s l where hsl: "hslOfUnit (real_of_int r / 255) (real_of_int g / 255) (real_of_int b / 255) = (h, s, l)"
    by (cases "hslOfUnit (real_of_int r / 255) (real_of_int g / 255) (real_of_int b / 255)") auto
  have "(case hslOfUnit (real_of_int r / 255) (real_of_int g / 255) (real_of_int b / 255) of
          (h, s, l) \<Rightarrow> hslToUnit h s l)
        = (real_of_int r / 255, real_of_int g / 255, real_of_int b / 255)"
    using v [THEN unit_channel] by (intro hsl_unit_roundtrip) simp_all
  then have "hslToUnit h s l = (real_of_int r / 255, real_of_int g / 255, real_of_int b / 255)"
    by (simp add: hsl)
  then show ?thesis
    by (simp add: c rgbToHsl_def hsl hslToRgb_def jsRound_of_int)
qed


lemma hsv_scale:
  fixes mx mn :: real
  assumes "0 \<le> mn" "mn \<le> mx"
    and s: "s = (if mx = 0 then 0 else (mx - mn) / mx)"
  shows "mx * (1 - k * s) = mx - k * (mx - mn)"
proof (cases "mx = 0")
  case True
  with assms show ?thesis by simp
next
  case False
  then have "mx * s = mx - mn" by (simp add: s)
  then have "mx * (k * s) = k * (mx - mn)" by (metis mult.left_commute)
  then show ?thesis by (simp add: right_diff_distrib)
qed

lemma hsvToUnit_sector:
  assumes "h * 6 = real_of_int i + f" "0 \<le> f" "f < 1" "0 \<le> i" "i \<le> 5"
  shows "hsvToUnit h s v =
     (if i = 0 then Some (v, v * (1 - (1 - f) * s), v * (1 - s))
      else if i = 1 then Some (v * (1 - f * s), v, v * (1 - s))
      else if i = 2 then Some (v * (1 - s), v, v * (1 - (1 - f) * s))
      else if i = 3 then Some (v * (1 - s), v * (1 - f * s), v)
      else if i = 4 then Some (v * (1 - (1 - f) * s), v * (1 - s), v)
      else Some (v, v * (1 - s), v * (1 - f * s)))"
proof -
  have fl: "\<lfloor>h * 6\<rfloor> = i" using assms(1-3) by (intro floor_unique) simp_all
  have f: "h * 6 - real_of_int i = f" using assms(1) by simp
  have k: "jsRem i 6 = i" using assms(4,5) by (simp add: jsRem_def)
  have "i = 0 \<or> i = 1 \<or> i = 2 \<or> i = 3 \<or> i = 4 \<or> i = 5" using assms(4,5) by arith
  then show ?thesis
    unfolding hsvToUnit_def Let_def fl f k by auto
qed


lemma hsv_unit_roundtrip:
  fixes r g b :: real
  assumes "0 \<le> r" "r \<le> 1" "0 \<le> g" "g \<le> 1" "0 \<le> b" "b \<le> 1"
  shows "(case hsvOfUnit r g b of (h, s, v) \<Rightarrow> hsvToUnit h s v) = Some (r, g, b)"
proof -
  define mx where "mx = max r (max g b)"
  define mn where "mn = min r (min g b)"
  define d where "d = mx - mn"
  define s where "s = (if mx = 0 then 0 else d / mx)"
  define H where "H = (if mx = r then (g - b) / d + (if g < b then 6 else 0)
                     else if mx = g then (b - r) / d + 2
                     else (r - g) / d + 4)"
  define h where "h = (if mx = mn then 0 else H / 6)"
  have eq: "hsvOfUnit r g b = (h, s, mx)"
    by (simp add: hsvOfUnit_def Let_def mx_def mn_def d_def s_def h_def H_def)
  have le: "r \<le> mx" "g \<le> mx" "b \<le> mx" "mn \<le> r" "mn \<le> g" "mn \<le> b"
    by (simp_all add: mx_def mn_def)
  have mn0: "0 \<le> mn" using assms by (simp add: mn_def)
  have mnmx: "mn \<le> mx" using le by linarith
  have s': "s = (if mx = 0 then 0 else (mx - mn) / mx)" by (simp add: s_def d_def)
  have q_eq: "mx * (1 - f * s) = mx - f * d" for f
    using hsv_scale [OF mn0 mnmx s', of f] by (simp add: d_def)
  have p_eq: "mx * (1 - s) = mn" using q_eq [of 1] by (simp add: d_def)
  have t_eq: "mx * (1 - (1 - f) * s) = mn + f * d" for f
    using q_eq [of "1 - f"] by (simp add: d_def algebra_simps)
  have goal: "hsvToUnit h s mx = Some (r, g, b)"
  proof (cases "mx = mn")
    case True
    then have same: "r = mx" "g = mx" "b = mx" using le by linarith+
    have "h * 6 = real_of_int 0 + 0" using True by (simp add: h_def)
    then have "hsvToUnit h s mx = Some (mx, mx * (1 - (1 - 0) * s), mx * (1 - s))"
      by (subst hsvToUnit_sector [of h 0 0]) simp_all
    then have u: "hsvToUnit h s mx = Some (mx, mn, mn)" by (simp add: p_eq)
    from True same have rgb: "(r, g, b) = (mx, mn, mn)" by simp
    show ?thesis unfolding rgb by (rule u)
  next
    case False
    then have dpos: "0 < d" using mnmx by (simp add: d_def)
    note rf = ratio_facts [OF dpos]
    have dd: "d = mx - mn" by (simp add: d_def)
    have hH: "h * 6 = H" using False by (simp add: h_def)
    have "mx = r \<or> mx = g \<or> mx = b" by (simp add: mx_def max_def)
    then consider (Rp) "mx = r" "b \<le> g" | (Rm) "mx = r" "g < b" | (G) "mx \<noteq> r" "mx = g"
      | (B) "mx \<noteq> r" "mx \<noteq> g" "mx = b"
      using not_le by blast
    then show ?thesis
    proof cases
      case Rp
      then have mn: "mn = b" using le by (simp add: mn_def)
      define x where "x = (g - b) / d"
      have x: "d * x = g - b" "0 \<le> x" "x \<le> 1"
        unfolding x_def rf using le dd Rp mn by linarith+
      have h6: "h * 6 = x" using Rp by (simp add: hH H_def x_def)
      show ?thesis
      proof (cases "x < 1")
        case True
        have "hsvToUnit h s mx = Some (mx, mx * (1 - (1 - x) * s), mx * (1 - s))"
          using h6 x True by (subst hsvToUnit_sector [of h 0 x]) simp_all
        then have u: "hsvToUnit h s mx = Some (mx, mn + x * d, mn)" by (simp add: p_eq t_eq)
        have e: "mn + x * d = g" using x(1) mn by (simp add: mult.commute)
        show ?thesis using u e Rp mn by simp
      next
        case F: False
        with x have x1: "x = 1" by simp
        then have gm: "g = mx" using x(1) dd mn by simp
        have "hsvToUnit h s mx = Some (mx * (1 - 0 * s), mx, mx * (1 - s))"
          using h6 x1 by (subst hsvToUnit_sector [of h 1 0]) simp_all
        then have u: "hsvToUnit h s mx = Some (mx, mx, mn)" by (simp add: p_eq q_eq)
        show ?thesis using u Rp mn gm by simp
      qed
    next
      case Rm
      then have mn: "mn = g" using le by (simp add: mn_def)
      define x where "x = (g - b) / d"
      have x: "d * x = g - b" "- 1 \<le> x" "x < 0"
        unfolding x_def rf using le dd Rm mn by linarith+
      have h6: "h * 6 = x + 6" using Rm by (simp add: hH H_def x_def)
      have "hsvToUnit h s mx = Some (mx, mx * (1 - s), mx * (1 - (x + 1) * s))"
        using h6 x by (subst hsvToUnit_sector [of h 5 "x + 1"]) simp_all
      then have u: "hsvToUnit h s mx = Some (mx, mn, mx - (x + 1) * d)" by (simp add: p_eq q_eq)
      have e: "mx - (x + 1) * d = b"
      proof -
        have "(x + 1) * d = d * x + d" by (simp add: algebra_simps)
        then show ?thesis using x(1) mn dd by linarith
      qed
      show ?thesis using u e Rm mn by simp
    next
      case G
      then have rlt: "r < g" using le by simp
      have bg: "b \<le> g" using G le by simp
      define x where "x = (b - r) / d"
      have x: "d * x = b - r" "- 1 < x" "x \<le> 1"
        unfolding x_def rf using le dd G rlt bg by linarith+
      have h6: "h * 6 = x + 2" using G by (simp add: hH H_def x_def)
      consider (neg) "x < 0" | (mid) "0 \<le> x" "x < 1" | (one) "x = 1" using x by linarith
      then show ?thesis
      proof cases
        case neg
        then have "b < r" using x(1) dpos by (simp add: x_def rf)
        then have mn: "mn = b" using rlt by (auto simp: mn_def)
        have "hsvToUnit h s mx = Some (mx * (1 - (x + 1) * s), mx, mx * (1 - s))"
          using h6 x neg by (subst hsvToUnit_sector [of h 1 "x + 1"]) simp_all
        then have u: "hsvToUnit h s mx = Some (mx - (x + 1) * d, mx, mn)" by (simp add: p_eq q_eq)
        have e: "mx - (x + 1) * d = r"
        proof -
          have "(x + 1) * d = d * x + d" by (simp add: algebra_simps)
          then show ?thesis using x(1) mn dd by linarith
        qed
        show ?thesis using u e G mn by simp
      next
        case mid
        then have "r \<le> b" using x(1) dpos by (simp add: x_def rf)
        then have mn: "mn = r" using rlt by (auto simp: mn_def)
        have "hsvToUnit h s mx = Some (mx * (1 - s), mx, mx * (1 - (1 - x) * s))"
          using h6 x mid by (subst hsvToUnit_sector [of h 2 x]) simp_all
        then have u: "hsvToUnit h s mx = Some (mn, mx, mn + x * d)" by (simp add: p_eq t_eq)
        have e: "mn + x * d = b" using x(1) mn by (simp add: mult.commute)
        show ?thesis using u e G mn by simp
      next
        case one
        then have "b - r = d" using x(1) by simp
        then have bm: "b = mx" "r = mn" using le dd by linarith+
        have "hsvToUnit h s mx = Some (mx * (1 - s), mx * (1 - 0 * s), mx)"
          using h6 one by (subst hsvToUnit_sector [of h 3 0]) simp_all
        then have u: "hsvToUnit h s mx = Some (mn, mx, mx)" by (simp add: p_eq q_eq)
        show ?thesis using u G bm by simp
      qed
    next
      case B
      then have lt: "r < b" "g < b" using le by simp_all
      define x where "x = (r - g) / d"
      have x: "d * x = r - g" "- 1 < x" "x < 1"
        unfolding x_def rf using le dd B lt by linarith+
      have h6: "h * 6 = x + 4" using B by (simp add: hH H_def x_def)
      show ?thesis
      proof (cases "x < 0")
        case True
        then have "r < g" using x(1) dpos by (simp add: x_def rf)
        then have mn: "mn = r" using lt by (auto simp: mn_def)
        have "hsvToUnit h s mx = Some (mx * (1 - s), mx * (1 - (x + 1) * s), mx)"
          using h6 x True by (subst hsvToUnit_sector [of h 3 "x + 1"]) simp_all
        then have u: "hsvToUnit h s mx = Some (mn, mx - (x + 1) * d, mx)" by (simp add: p_eq q_eq)
        have e: "mx - (x + 1) * d = g"
        proof -
          have "(x + 1) * d = d * x + d" by (simp add: algebra_simps)
          then show ?thesis using x(1) mn dd by linarith
        qed
        show ?thesis using u e B mn by simp
      next
        case False
        then have "g \<le> r" using x(1) dpos by (simp add: x_def rf)
        then have mn: "mn = g" using lt by (auto simp: mn_def)
        have "hsvToUnit h s mx = Some (mx * (1 - (1 - x) * s), mx * (1 - s), mx)"
          using h6 x False by (subst hsvToUnit_sector [of h 4 x]) simp_all
        then have u: "hsvToUnit h s mx = Some (mn + x * d, mn, mx)" by (simp add: p_eq t_eq)
        have e: "mn + x * d = r" using x(1) mn by (simp add: mult.commute)
        show ?thesis using u e B mn by simp
      qed
    qed
  qed
  then show ?thesis by (simp add: eq)
qed

lemma hsv_roundtrip:
  assumes "validColor c"
  shows "(case rgbToHsv c of (h, s, v) \<Rightarrow> hsvToRgb h s v) = Some c"
proof -
  obtain r g b where c: "c = (r, g, b)" by (cases c) auto
  from assms have v: "validChannel r" "validChannel g" "validChannel b"
    by (simp_all add: c validColor_def)
  obtain h s l where hsv: "hsvOfUnit (real_of_int r / 255) (real_of_int g / 255) (real_of_int b / 255) = (h, s, l)"
    by (cases "hsvOfUnit (real_of_int r / 255) (real_of_int g / 255) (real_of_int b / 255)") auto
  have "(case hsvOfUnit (real_of_int r / 255) (real_of_int g / 255) (real_of_int b / 255) of
          (h, s, v) \<Rightarrow> hsvToUnit h s v)
        = Some (real_of_int r / 255, real_of_int g / 255, real_of_int b / 255)"
    using v [THEN unit_channel] by (intro hsv_unit_roundtrip) simp_all
  then have "hsvToUnit h s l = Some (real_of_int r / 255, real_of_int g / 255, real_of_int b / 255)"
    by (simp add: hsv)
  then show ?thesis
    by (simp add: c rgbToHsv_def hsv hsvToRgb_def jsRound_of_int)
qed

text \<open>
  Claim C7.  For every color with integer channels in 0..255, \<open>hslToRgb\<close> applied to the
  result of \<open>rgbToHsl\<close> gives a color that differs from it by at most 1 in each channel,
  and so does \<open>hsvToRgb\<close> applied to the result of \<open>rgbToHsv\<close> (which gives a color,
  not \<open>NaN\<close> channels).
\<close>

theorem C7_round_trip:
  assumes "validColor c"
  shows "withinOne (case rgbToHsl c of (h, s, l) \<Rightarrow> hslToRgb h s l) c
       \<and> (\<exists>c'. (case rgbToHsv c of (h, s, v) \<Rightarrow> hsvToRgb h s v) = Some c' \<and> withinOne c' c)"
proof -
  have w: "withinOne c c" by (cases c) (simp add: withinOne_def)
  show ?thesis
    using w by (simp add: hsl_roundtrip [OF assms] hsv_roundtrip [OF assms])
qed

theorem C7_round_trip_witness:
  "validColor (200, 30, 30)
   \<and> withinOne (case rgbToHsl (200, 30, 30) of (h, s, l) \<Rightarrow> hslToRgb h s l) (200, 30, 30)
   \<and> (\<exists>c'. (case rgbToHsv (200, 30, 30) of (h, s, v) \<Rightarrow> hsvToRgb h s v) = Some c'
          \<and> withinOne c' (200, 30, 30))"
proof -
  have v: "validColor (200, 30, 30)" by (simp add: validColor_def validChannel_def)
  from v C7_round_trip [OF v] show ?thesis by blast
qed

section \<open>Rounding to double precision\<close>

text \<open>
  The exponent found by \<open>expo\<close> is the right one, so \<open>dbl\<close> keeps the sign, maps zero
  and only zero to zero, and is monotone.
\<close>

lemma pow2_pos: "0 < pow2 k"
  by (simp add: pow2_def)

lemma pow2_powi: "pow2 k = 2 powi k"
  by (simp add: pow2_def power_int_def field_simps)

lemma pow2_add: "pow2 (a + b) = pow2 a * pow2 b"
  by (simp add: pow2_powi power_int_add)

lemma pow2_mono: "a \<le> b \<Longrightarrow> pow2 a \<le> pow2 b"
  by (simp add: pow2_powi power_int_increasing)

lemma pow2_nat: "pow2 (int n) = 2 ^ n"
  by (simp add: pow2_def)

lemma pow2_neg_nat: "pow2 (- int n) = 1 / 2 ^ n"
  by (simp add: pow2_powi power_int_minus field_simps)

lemma ilog2_bounds: "1 \<le> n \<Longrightarrow> 2 ^ ilog2 n \<le> n \<and> n < 2 ^ (ilog2 n + 1)"
proof (induction n rule: ilog2.induct)
  case (1 n)
  show ?case
  proof (cases "n < 2")
    case True
    with 1(2) show ?thesis by (simp add: ilog2.simps)
  next
    case False
    then have h: "1 \<le> n div 2" by simp
    from 1(1) [OF False h] have lo: "2 ^ ilog2 (n div 2) \<le> n div 2"
      and hi: "n div 2 < 2 ^ (ilog2 (n div 2) + 1)" by simp_all
    have e: "ilog2 n = Suc (ilog2 (n div 2))" using False by (simp add: ilog2.simps)
    from lo have "2 * 2 ^ ilog2 (n div 2) \<le> n" by linarith
    moreover from hi have "n < 2 * 2 ^ (ilog2 (n div 2) + 1)" by linarith
    ultimately show ?thesis by (simp add: e)
  qed
qed

lemma expo_bounds:
  assumes "0 < x"
  shows "pow2 (expo x) \<le> x \<and> x < pow2 (expo x + 1)"
proof (cases "1 \<le> x")
  case True
  define n where "n = nat \<lfloor>x\<rfloor>"
  from True have n1: "1 \<le> n" by (simp add: n_def le_nat_iff)
  have nx: "real n \<le> x" "x < real n + 1" using True by (simp_all add: n_def)
  have e: "expo x = int (ilog2 n)" using True by (simp add: expo_def n_def)
  from ilog2_bounds [OF n1] have "(2::real) ^ ilog2 n \<le> real n" "real n + 1 \<le> 2 ^ (ilog2 n + 1)"
    by (metis of_nat_le_iff of_nat_numeral of_nat_power, metis Suc_eq_plus1 Suc_leI of_nat_Suc of_nat_le_iff of_nat_numeral of_nat_power add.commute)
  with nx have "2 ^ ilog2 n \<le> x" "x < 2 ^ (ilog2 n + 1)" by linarith+
  moreover have "pow2 (int (ilog2 n) + 1) = 2 ^ (ilog2 n + 1)"
    using pow2_nat [of "ilog2 n + 1"] by (simp add: add.commute)
  ultimately show ?thesis by (simp add: e pow2_nat)
next
  case False
  define y where "y = 1 / x"
  from False assms have y1: "1 < y" by (simp add: y_def)
  define c where "c = \<lceil>y\<rceil>"
  from y1 have c2: "2 \<le> c" unfolding c_def by linarith
  define m where "m = nat (c - 1)"
  from c2 have m1: "1 \<le> m" by (simp add: m_def)
  have mc: "int m = c - 1" using c2 by (simp add: m_def)
  have e: "expo x = - int (Suc (ilog2 m))"
    using False c2 by (simp add: expo_def y_def [symmetric] c_def [symmetric] m_def)
  from ilog2_bounds [OF m1] have lo: "2 ^ ilog2 m \<le> m" and hi: "m < 2 ^ (ilog2 m + 1)" by simp_all
  have "real_of_int c - 1 < y" "y \<le> real_of_int c" unfolding c_def by linarith+
  from lo have "(2::int) ^ ilog2 m \<le> c - 1" using mc by (metis of_nat_le_iff of_nat_numeral of_nat_power)
  then have "(2::int) ^ ilog2 m < c" by simp
  then have "(2::real) ^ ilog2 m < y" unfolding c_def by (metis less_ceiling_iff of_int_numeral of_int_power)
  moreover from hi have "c \<le> (2::int) ^ (ilog2 m + 1)" using mc
    by (metis (no_types, opaque_lifting) Suc_eq_plus1 Suc_leI add.commute diff_add_cancel of_nat_Suc of_nat_le_iff of_nat_numeral of_nat_power)
  then have "y \<le> (2::real) ^ (ilog2 m + 1)" unfolding c_def
    by (metis ceiling_le_iff of_int_numeral of_int_power)
  ultimately have "1 / 2 ^ (ilog2 m + 1) \<le> x" "x < 1 / 2 ^ ilog2 m"
    using assms by (simp_all add: y_def field_simps)
  moreover have "pow2 (- int (Suc (ilog2 m))) = 1 / 2 ^ (ilog2 m + 1)"
    using pow2_neg_nat [of "Suc (ilog2 m)"] by simp
  moreover have "pow2 (- int (Suc (ilog2 m)) + 1) = 1 / 2 ^ ilog2 m"
    using pow2_neg_nat [of "ilog2 m"] by simp
  ultimately show ?thesis by (simp add: e)
qed

lemma rne_near: "\<bar>real_of_int (rne x) - x\<bar> \<le> 1 / 2"
  unfolding rne_def Let_def by (auto split: if_splits)

lemma rne_of_int: "rne (real_of_int k) = k"
  by (simp add: rne_def)

lemma rne_mono:
  assumes "x \<le> y"
  shows "rne x \<le> rne y"
proof (cases "\<lfloor>x\<rfloor> = \<lfloor>y\<rfloor>")
  case True
  with assms show ?thesis unfolding rne_def Let_def by (auto split: if_splits)
next
  case False
  with assms have "\<lfloor>x\<rfloor> + 1 \<le> \<lfloor>y\<rfloor>" using floor_mono [OF assms] by linarith
  moreover have "rne x \<le> \<lfloor>x\<rfloor> + 1" unfolding rne_def Let_def by (auto split: if_splits)
  moreover have "\<lfloor>y\<rfloor> \<le> rne y" unfolding rne_def Let_def by (auto split: if_splits)
  ultimately show ?thesis by linarith
qed

lemma dblPos_bounds:
  assumes "0 < x"
  shows "pow2 (expo x) \<le> dblPos x \<and> dblPos x \<le> pow2 (expo x + 1)"
proof -
  define e where "e = expo x"
  define m where "m = x * pow2 (52 - e)"
  from expo_bounds [OF assms] have b: "pow2 e \<le> x" "x < pow2 (e + 1)" by (simp_all add: e_def)
  have s: "pow2 e * pow2 (52 - e) = pow2 52" "pow2 (e + 1) * pow2 (52 - e) = pow2 53"
    by (simp_all add: pow2_add [symmetric])
  have "pow2 e * pow2 (52 - e) \<le> m" unfolding m_def using b(1) pow2_pos [of "52 - e"]
    by (intro mult_right_mono) simp_all
  then have "pow2 52 \<le> m" by (simp only: s)
  then have lo: "real_of_int (2 ^ 52) \<le> m" by (simp add: pow2_def)
  have "m \<le> pow2 (e + 1) * pow2 (52 - e)" unfolding m_def using b(2) pow2_pos [of "52 - e"]
    by (intro mult_right_mono) simp_all
  then have "m \<le> pow2 53" by (simp only: s)
  then have hi: "m \<le> real_of_int (2 ^ 53)" by (simp add: pow2_def)
  from rne_mono [OF lo] have lo': "2 ^ 52 \<le> rne m" by (simp only: rne_of_int)
  from rne_mono [OF hi] have hi': "rne m \<le> 2 ^ 53" by (simp only: rne_of_int)
  have t: "pow2 52 * pow2 (e - 52) = pow2 e" "pow2 53 * pow2 (e - 52) = pow2 (e + 1)"
    using pow2_add [of 52 "e - 52"] pow2_add [of 53 "e - 52"] by (simp_all add: add.commute)
  from lo' have "real_of_int (2 ^ 52) \<le> real_of_int (rne m)" by (simp only: of_int_le_iff)
  then have "pow2 52 * pow2 (e - 52) \<le> real_of_int (rne m) * pow2 (e - 52)"
    using pow2_pos [of "e - 52"] by (intro mult_right_mono) (simp_all add: pow2_def)
  moreover from hi' have "real_of_int (rne m) \<le> real_of_int (2 ^ 53)" by (simp only: of_int_le_iff)
  then have "real_of_int (rne m) * pow2 (e - 52) \<le> pow2 53 * pow2 (e - 52)"
    using pow2_pos [of "e - 52"] by (intro mult_right_mono) (simp_all add: pow2_def)
  ultimately show ?thesis by (simp add: dblPos_def e_def [symmetric] m_def [symmetric] t)
qed

lemma dblPos_pos: "0 < x \<Longrightarrow> 0 < dblPos x"
  using dblPos_bounds [of x] pow2_pos [of "expo x"] by linarith

lemma dblPos_mono:
  assumes "0 < x" and "x \<le> y"
  shows "dblPos x \<le> dblPos y"
proof -
  from assms have y: "0 < y" by simp
  from expo_bounds [OF assms(1)] expo_bounds [OF y] assms(2)
  have "pow2 (expo x) < pow2 (expo y + 1)" by linarith
  then have "expo x < expo y + 1" using pow2_mono [of "expo y + 1" "expo x"] by (cases "expo x < expo y + 1") simp_all
  then consider "expo x = expo y" | "expo x + 1 \<le> expo y" by linarith
  then show ?thesis
  proof cases
    case 1
    have "x * pow2 (52 - expo y) \<le> y * pow2 (52 - expo y)"
      using assms(2) pow2_pos [of "52 - expo y"] by (intro mult_right_mono) simp_all
    from rne_mono [OF this]
    have "real_of_int (rne (x * pow2 (52 - expo y))) \<le> real_of_int (rne (y * pow2 (52 - expo y)))"
      by (simp only: of_int_le_iff)
    then have "real_of_int (rne (x * pow2 (52 - expo y))) * pow2 (expo y - 52)
        \<le> real_of_int (rne (y * pow2 (52 - expo y))) * pow2 (expo y - 52)"
      using pow2_pos [of "expo y - 52"] by (intro mult_right_mono) simp_all
    then show ?thesis by (simp add: dblPos_def 1)
  next
    case 2
    from dblPos_bounds [OF assms(1)] have "dblPos x \<le> pow2 (expo x + 1)" by simp
    also have "\<dots> \<le> pow2 (expo y)" by (rule pow2_mono [OF 2])
    also from dblPos_bounds [OF y] have "\<dots> \<le> dblPos y" by simp
    finally show ?thesis .
  qed
qed

lemma dbl_neg: "dbl (- x) = - dbl x"
  by (simp add: dbl_def)

lemma dbl_pos_iff: "0 < dbl x \<longleftrightarrow> 0 < x"
  using dblPos_pos [of x] dblPos_pos [of "- x"] by (auto simp add: dbl_def split: if_splits)

lemma dbl_nonpos_iff: "dbl x \<le> 0 \<longleftrightarrow> x \<le> 0"
  using dbl_pos_iff [of x] by linarith

lemma dbl_zero_iff: "dbl x = 0 \<longleftrightarrow> x = 0"
  using dbl_pos_iff [of x] dbl_pos_iff [of "- x"] by (auto simp add: dbl_neg)

lemma dbl_mono:
  assumes "x \<le> y"
  shows "dbl x \<le> dbl y"
proof -
  consider "0 < x" | "x \<le> 0" "0 \<le> y" | "y < 0" using assms by linarith
  then show ?thesis
  proof cases
    case 1
    with assms dblPos_mono [of x y] show ?thesis by (simp add: dbl_def)
  next
    case 2
    from 2(1) have "dbl x \<le> 0" by (simp add: dbl_nonpos_iff)
    moreover from 2(2) have "0 \<le> dbl y" using dbl_pos_iff [of y] by (cases "y = 0") (simp_all add: dbl_def)
    ultimately show ?thesis by linarith
  next
    case 3
    with assms dblPos_mono [of "- y" "- x"] show ?thesis by (simp add: dbl_def)
  qed
qed

lemma dbl_abs_le: "\<bar>x\<bar> \<le> b \<Longrightarrow> \<bar>dbl x\<bar> \<le> dbl b"
  using dbl_mono [of x b] dbl_mono [of "- b" x] by (simp add: dbl_neg abs_le_iff)

text \<open>
  The rounding moves a number by at most the fraction \<open>1 / 2 ^ 53\<close> of its size.
\<close>

lemma dblPos_err:
  assumes "0 < x"
  shows "\<bar>dblPos x - x\<bar> \<le> x / 2 ^ 53"
proof -
  define e where "e = expo x"
  define m where "m = x * pow2 (52 - e)"
  define u where "u = pow2 (e - 52)"
  have one: "pow2 (52 - e) * u = 1" using pow2_add [of "52 - e" "e - 52"] by (simp add: u_def pow2_def)
  have xm: "x = m * u" using one by (simp add: m_def mult.assoc)
  have u52: "u * 2 ^ 52 = pow2 e" using pow2_add [of "e - 52" 52] by (simp add: u_def pow2_def)
  have upos: "0 < u" by (simp add: u_def pow2_pos)
  from expo_bounds [OF assms] have "pow2 e \<le> x" by (simp add: e_def)
  with u52 have ux: "u \<le> x / 2 ^ 52" by (simp add: field_simps)
  have "dblPos x - x = (real_of_int (rne m) - m) * u"
    by (simp add: dblPos_def e_def [symmetric] m_def [symmetric] u_def [symmetric] xm [symmetric]
        algebra_simps)
  then have "\<bar>dblPos x - x\<bar> = \<bar>real_of_int (rne m) - m\<bar> * u" using upos by (simp add: abs_mult)
  also have "\<dots> \<le> 1 / 2 * u" using rne_near [of m] upos by (intro mult_right_mono) simp_all
  also have "\<dots> \<le> 1 / 2 * (x / 2 ^ 52)" using ux by simp
  also have "\<dots> = x / 2 ^ 53" by simp
  finally show ?thesis .
qed

lemma dbl_err: "\<bar>dbl x - x\<bar> \<le> \<bar>x\<bar> / 2 ^ 53"
proof -
  consider "x = 0" | "0 < x" | "x < 0" by linarith
  then show ?thesis
  proof cases
    case 1
    then show ?thesis by (simp add: dbl_def)
  next
    case 2
    with dblPos_err [of x] show ?thesis by (simp add: dbl_def)
  next
    case 3
    with dblPos_err [of "- x"] show ?thesis by (simp add: dbl_def)
  qed
qed

text \<open>
  The rounding of a number that is written out, for the simplifier: the rules apply to
  numerals and their quotients only.
\<close>

lemma rne_eval:
  "rne x = (if x - real_of_int \<lfloor>x\<rfloor> < 1 / 2 then \<lfloor>x\<rfloor>
            else if x - real_of_int \<lfloor>x\<rfloor> > 1 / 2 then \<lfloor>x\<rfloor> + 1
            else if even \<lfloor>x\<rfloor> then \<lfloor>x\<rfloor> else \<lfloor>x\<rfloor> + 1)"
  by (simp add: rne_def Let_def)

lemma dbl_lit:
  "dbl 0 = 0"
  "dbl 1 = dblPos 1"
  "dbl (numeral a) = dblPos (numeral a)"
  "dbl (numeral a / numeral b) = dblPos (numeral a / numeral b)"
  "dbl (1 / numeral b) = dblPos (1 / numeral b)"
  "dbl (- x) = - dbl x"
  by (simp_all add: dbl_def)

lemma Let_lit:
  "Let (numeral a / numeral b :: real) f = f (numeral a / numeral b)"
  "Let (1 / numeral b :: real) f = f (1 / numeral b)"
  "Let (- (numeral a / numeral b) :: real) f = f (- (numeral a / numeral b))"
  "Let (- (1 / numeral b) :: real) f = f (- (1 / numeral b))"
  by simp_all

lemmas dbl_run = dbl_lit dblPos_def rne_eval expo_def pow2_def ilog2.simps Let_lit

lemmas convD = rgbToHslD_def hslOfUnitD_def hslToRgbD_def hslToUnitD_def hue2rgbD_def jsRound_def

lemmas adjD = adjustSaturationD_def adjustLightnessD_def scaleShiftD_def clampRangeD_def clampUnit_def
  mkProfile_def

lemma dbl_diff_sign: "(dbl (x - y) \<le> 0) = (x \<le> y)"
  by (simp add: dbl_nonpos_iff)

lemma dbl_half: "dbl (1 / 2) = 1 / 2"
  by (simp add: dbl_run)

lemma dbl_one: "dbl 1 = 1"
  by (simp add: dbl_run)

lemma dbl_zero: "dbl 0 = 0"
  by (simp add: dbl_def)

lemma dbl_nonneg: "0 \<le> x \<Longrightarrow> 0 \<le> dbl x"
  using dbl_mono [of 0 x] by (simp add: dbl_zero)

lemma dbl_literals:
  "dbl (dbl (3 / 20)) = dbl (3 / 20)"
  "dbl (dbl (7 / 10)) = dbl (7 / 10)"
  "dbl (dbl (1 / 10)) = dbl (1 / 10)"
  "dbl (dbl (3 / 20) + dbl (7 / 10)) = dbl (17 / 20)"
  "dbl (dbl (1 / 20) / 2) = dbl (1 / 40)"
  "dbl (dbl (1 / 10) / 2) = dbl (1 / 20)"
  by (simp_all add: dbl_run)

lemma dbl_unit: "0 \<le> x \<Longrightarrow> x \<le> 1 \<Longrightarrow> 0 \<le> dbl x \<and> dbl x \<le> 1"
  using dbl_mono [of 0 x] dbl_mono [of x 1] by (simp add: dbl_zero dbl_one)

lemma dbl_err_le:
  assumes "\<bar>x\<bar> \<le> b"
  shows "\<bar>dbl x - x\<bar> \<le> b * (1 / 2 ^ 53)"
proof -
  from assms have "\<bar>x\<bar> / 2 ^ 53 \<le> b / 2 ^ 53" by (simp add: divide_right_mono)
  with dbl_err [of x] show ?thesis by simp
qed

text \<open>
  The quotient of a channel by 255 stays between 0 and 1, and the divisors of
  \<open>rgbToHsl\<close> are not zero.  At the hue 0, the saturation 0.5 and the lightness 0.2 the
  exact green channel is 25.5, a tie of \<open>Math.round\<close>, and the program computes a
  double just below it: the exact function and the program give different colors there.
\<close>

lemma unit_channelD:
  assumes "validChannel c"
  shows "0 \<le> dbl (real_of_int c / 255) \<and> dbl (real_of_int c / 255) \<le> 1"
proof -
  from assms have "0 \<le> real_of_int c / 255" "real_of_int c / 255 \<le> 1"
    by (simp_all add: validChannel_def)
  from dbl_mono [OF this(1)] dbl_mono [OF this(2)] show ?thesis by (simp add: dbl_zero dbl_one)
qed

lemma hslOfUnitD_divisors:
  assumes "0 \<le> r" "r \<le> 1" "0 \<le> g" "g \<le> 1" "0 \<le> b" "b \<le> 1"
    and "max r (max g b) \<noteq> min r (min g b)"
  shows "dbl (max r (max g b) - min r (min g b)) \<noteq> 0
       \<and> dbl (max r (max g b) + min r (min g b)) \<noteq> 0
       \<and> dbl (dbl (2 - max r (max g b)) - min r (min g b)) \<noteq> 0"
proof -
  define mx where "mx = max r (max g b)"
  define mn where "mn = min r (min g b)"
  from assms have b: "0 \<le> mn" "mn < mx" "mx \<le> 1" by (auto simp add: mx_def mn_def)
  from b have "1 \<le> 2 - mx" by simp
  from dbl_mono [OF this] have "1 \<le> dbl (2 - mx)" by (simp add: dbl_one)
  with b have "dbl (2 - mx) - mn \<noteq> 0" by simp
  moreover from b have "mx - mn \<noteq> 0" "mx + mn \<noteq> 0" by simp_all
  ultimately show ?thesis unfolding mx_def [symmetric] mn_def [symmetric] by (simp add: dbl_zero_iff)
qed

lemma rounding_tie:
  "hslToRgb 0 (1 / 2) (1 / 5) = (77, 26, 26)
   \<and> hslToRgbD 0 (1 / 2) (dbl (1 / 5)) = (77, 25, 25)"
  by (simp add: hslToRgb_def hslToUnit_def hue2rgb_def hslToRgbD_def hslToUnitD_def hue2rgbD_def
      jsRound_def dbl_run)


section \<open>Harmonization\<close>

text \<open>
  The saturation and the lightness of a color with channels in 0..255 lie between 0 and 1;
  in particular the divisors of \<open>rgbToHsl\<close> are not zero for such a color.
\<close>

lemma hslOfUnit_divisors:
  fixes r g b :: real
  assumes "0 \<le> r" "r \<le> 1" "0 \<le> g" "g \<le> 1" "0 \<le> b" "b \<le> 1"
    and "max r (max g b) \<noteq> min r (min g b)"
  shows "max r (max g b) - min r (min g b) \<noteq> 0
       \<and> ((max r (max g b) + min r (min g b)) / 2 > 0.5 \<longrightarrow> 2 - max r (max g b) - min r (min g b) \<noteq> 0)
       \<and> (\<not> (max r (max g b) + min r (min g b)) / 2 > 0.5 \<longrightarrow> max r (max g b) + min r (min g b) \<noteq> 0)"
proof -
  define mx where "mx = max r (max g b)"
  define mn where "mn = min r (min g b)"
  have b: "0 \<le> mn" "mn \<le> mx" "mx \<le> 1" using assms(1-6) by (simp_all add: mx_def mn_def)
  from assms(7) have "mn < mx" using b by (simp add: mx_def mn_def)
  with b have "mx - mn \<noteq> 0 \<and> 2 - mx - mn \<noteq> 0 \<and> mx + mn \<noteq> 0" by linarith
  then show ?thesis by (simp add: mx_def mn_def)
qed

lemma hslOfUnit_bounds:
  fixes r g b :: real
  assumes "0 \<le> r" "r \<le> 1" "0 \<le> g" "g \<le> 1" "0 \<le> b" "b \<le> 1"
    and "hslOfUnit r g b = (h, s, l)"
  shows "0 \<le> s \<and> s \<le> 1 \<and> 0 \<le> l \<and> l \<le> 1"
proof -
  define mx where "mx = max r (max g b)"
  define mn where "mn = min r (min g b)"
  define l' where "l' = (mx + mn) / 2"
  define s' where "s' = (if l' > 0.5 then (mx - mn) / (2 - mx - mn) else (mx - mn) / (mx + mn))"
  have b: "0 \<le> mn" "mn \<le> mx" "mx \<le> 1" using assms(1-6) by (simp_all add: mx_def mn_def)
  have lb: "0 \<le> l' \<and> l' \<le> 1" using b by (simp add: l'_def)
  show ?thesis
  proof (cases "mx = mn")
    case True
    then have "hslOfUnit r g b = (0, 0, l')"
      by (simp add: hslOfUnit_def Let_def mx_def mn_def l'_def)
    with assms(7) lb show ?thesis by simp
  next
    case False
    define h' where "h' = (if mx = r then (g - b) / (mx - mn) + (if g < b then 6 else 0)
                  else if mx = g then (b - r) / (mx - mn) + 2
                  else (r - g) / (mx - mn) + 4) / 6"
    from False have "hslOfUnit r g b = (h', s', l')"
      by (simp add: hslOfUnit_def Let_def mx_def mn_def l'_def s'_def h'_def)
    with assms(7) have sl: "s = s'" "l = l'" by auto
    have lt: "mn < mx" using False b by simp
    have "0 \<le> s' \<and> s' \<le> 1"
    proof (cases "l' > 0.5")
      case True
      have D: "0 < 2 - mx - mn" using lt b by linarith
      have "s' = (mx - mn) / (2 - mx - mn)" using True by (simp add: s'_def)
      moreover have "mx - mn \<le> 2 - mx - mn" using b by linarith
      ultimately show ?thesis using D lt by (simp add: divide_le_eq_1_pos)
    next
      case F: False
      have D: "0 < mx + mn" using lt b by linarith
      have "s' = (mx - mn) / (mx + mn)" using F by (simp add: s'_def)
      moreover have "mx - mn \<le> mx + mn" using b by linarith
      ultimately show ?thesis using D lt by (simp add: divide_le_eq_1_pos)
    qed
    with sl lb show ?thesis by simp
  qed
qed

lemma rgbToHsl_bounds:
  assumes "validColor c" "rgbToHsl c = (h, s, l)"
  shows "0 \<le> s \<and> s \<le> 1 \<and> 0 \<le> l \<and> l \<le> 1"
proof -
  obtain r g b where c: "c = (r, g, b)" by (cases c) auto
  from assms(1) have v: "validChannel r" "validChannel g" "validChannel b"
    by (simp_all add: c validColor_def)
  from assms(2) have "hslOfUnit (real_of_int r / 255) (real_of_int g / 255) (real_of_int b / 255) = (h, s, l)"
    by (simp add: c rgbToHsl_def)
  with v [THEN unit_channel] show ?thesis by (intro hslOfUnit_bounds) simp_all
qed

lemma clampUnit_id: "0 \<le> x \<Longrightarrow> x \<le> 1 \<Longrightarrow> clampUnit x = x"
  by (simp add: clampUnit_def)

lemma adjust_none:
  "adjustLightness (Some noneProfile) x = clampUnit x"
  "adjustSaturation (Some noneProfile) x = clampUnit x"
  "adjustLightness None x = clampUnit x"
  "adjustSaturation None x = clampUnit x"
  by (simp_all add: adjustLightness_def adjustSaturation_def noneProfile_def mkProfile_def
      scaleShift_def clampRange_def)

lemma harmonizeColor_none_eq: "harmonizeColor (Some noneProfile) = harmonizeColor None"
  by (rule ext) (simp add: harmonizeColor_def adjust_none split: prod.splits)

lemma harmonizeColor_none_id:
  assumes "validColor c"
  shows "harmonizeColor None c = c"
proof -
  obtain h s l where hsl: "rgbToHsl c = (h, s, l)" by (cases "rgbToHsl c") auto
  from rgbToHsl_bounds [OF assms hsl] have "clampUnit s = s" "clampUnit l = l"
    by (simp_all add: clampUnit_id)
  then have "harmonizeColor None c = hslToRgb h s l"
    by (simp add: harmonizeColor_def hsl adjust_none)
  also have "\<dots> = c" using hsl_roundtrip [OF assms] by (simp add: hsl)
  finally show ?thesis .
qed

lemma paramsOf_unknown:
  "models name = None \<Longrightarrow> paramsOf name = None \<or> paramsOf name = Some noneProfile"
  by (simp add: paramsOf_def)

lemma paramsOf_none: "paramsOf ''none'' = Some noneProfile"
  by (simp add: paramsOf_def models_def)

lemma paramsOf_App_none: "paramsOf_App ''none'' = None"
  by (simp add: paramsOf_App_def models_App_def)

lemma map_harmonize_id:
  "list_all validColor cs \<Longrightarrow> map (harmonizeColor None) cs = cs"
  by (induction cs) (simp_all add: harmonizeColor_none_id)



text \<open>
  Claim C9.  A profile name that is not a key of \<open>models\<close> gives the same result as the
  name \<open>none\<close>, for every list of colors, in both files; and for a palette whose colors
  have integer channels in 0..255 the result for \<open>none\<close> is the palette itself.  The
  function is total: no name makes it fail.
\<close>

theorem C9_unknown_profile_is_none:
  "(models name = None \<longrightarrow> harmonizeColors palette name = harmonizeColors palette ''none'')
   \<and> (models_App name = None \<longrightarrow>
        harmonizeColors_App palette name = harmonizeColors_App palette ''none'')
   \<and> (list_all validColor palette \<longrightarrow>
        harmonizeColors palette ''none'' = palette \<and> harmonizeColors_App palette ''none'' = palette)"
proof -
  have a: "harmonizeColors palette name = harmonizeColors palette ''none''" if "models name = None"
    using paramsOf_unknown [OF that]
    by (auto simp: harmonizeColors_def paramsOf_none harmonizeColor_none_eq)
  have b: "harmonizeColors_App palette name = harmonizeColors_App palette ''none''"
    if "models_App name = None"
    using that by (simp add: harmonizeColors_App_def paramsOf_App_def models_App_def)
  have c: "harmonizeColors palette ''none'' = palette \<and> harmonizeColors_App palette ''none'' = palette"
    if "list_all validColor palette"
    using map_harmonize_id [OF that]
    by (simp add: harmonizeColors_def harmonizeColors_App_def paramsOf_none paramsOf_App_none
        harmonizeColor_none_eq)
  from a b c show ?thesis by blast
qed

theorem C9_unknown_profile_is_none_witness:
  "models ''sepia'' = None \<and> models_App ''sepia'' = None \<and> list_all validColor [(200, 30, 30)]
   \<and> harmonizeColors [(200, 30, 30)] ''sepia'' = [(200, 30, 30)]
   \<and> harmonizeColors_App [(200, 30, 30)] ''sepia'' = [(200, 30, 30)]"
proof -
  have m: "models ''sepia'' = None" "models_App ''sepia'' = None"
    by (simp_all add: models_def models_App_def)
  have v: "list_all validColor [(200, 30, 30)]" by (simp add: validColor_def validChannel_def)
  from m v C9_unknown_profile_is_none [of "''sepia''" "[(200, 30, 30)]"] show ?thesis by simp
qed


text \<open>
  The harmonizer as the program computes it, on three colors and the profile
  \<open>vibrant\<close>.
\<close>

lemma vibrant: "paramsOf ''vibrant'' = Some (mkProfile 1.0 1.4 0.0 0.2 (Some (0.3, 0.8)) (Some (0.7, 1.0)))"
  by (simp add: paramsOf_def models_def)

lemma navy_hsl:
  "rgbToHslD (0, 15, 30) = (5254199565265579 / 9007199254740992, 1, 4238682002231055 / 72057594037927936)"
  by (simp add: rgbToHslD_def hslOfUnitD_def dbl_run)

lemma navy_vibrant: "harmonizeColorD (paramsOf ''vibrant'') (0, 15, 30) = (0, 76, 153)"
  by (simp add: harmonizeColorD_def navy_hsl vibrant adjD hslToRgbD_def hslToUnitD_def hue2rgbD_def
      jsRound_def dbl_run)

lemma red_vibrant: "harmonizeColorD (paramsOf ''vibrant'') (200, 30, 30) = (230, 0, 0)"
  by (simp add: harmonizeColorD_def vibrant adjD convD dbl_run)

lemma vibrant_App: "paramsOf_App ''vibrant'' = paramsOf ''vibrant''"
  by (simp add: paramsOf_App_def paramsOf_def models_App_def models_def)

lemma gray_vibrant: "harmonizeColorD (paramsOf ''vibrant'') (128, 128, 128) = (217, 39, 39)"
  by (simp add: harmonizeColorD_def vibrant adjD convD dbl_run)


text \<open>
  Claim C10.  \<open>harmonizeColors\<close> returns as many colors as it is given.  The color at
  each position is computed from the input color at that position alone: it is what
  \<open>hslToRgb\<close> returns at the hue of that input color, unchanged, and at its saturation
  and lightness as adjusted by the profile; a palette that has the same color at the
  position gives the same color there.  All of it is computed as the program does, in
  double precision, in both source files.
\<close>

theorem C10_harmonize_frame:
  "length (harmonizeColorsD palette model) = length palette
   \<and> length (harmonizeColorsD_App palette model) = length palette
   \<and> (\<forall>i < length palette.
        harmonizeColorsD palette model ! i
          = hslToRgbD (hslHueD (palette ! i))
              (adjustSaturationD (paramsOf model) (hslSaturationD (palette ! i)))
              (adjustLightnessD (paramsOf model) (hslLightnessD (palette ! i)))
        \<and> harmonizeColorsD_App palette model ! i
          = hslToRgbD (hslHueD (palette ! i))
              (adjustSaturationD (paramsOf_App model) (hslSaturationD (palette ! i)))
              (adjustLightnessD (paramsOf_App model) (hslLightnessD (palette ! i)))
        \<and> (\<forall>other. i < length other \<and> other ! i = palette ! i \<longrightarrow>
              harmonizeColorsD other model ! i = harmonizeColorsD palette model ! i
              \<and> harmonizeColorsD_App other model ! i = harmonizeColorsD_App palette model ! i))"
  by (simp add: harmonizeColorsD_def harmonizeColorsD_App_def harmonizeColorD_def hslHueD_def
      hslSaturationD_def hslLightnessD_def split: prod.splits)


text \<open>
  The second color of \<open>[[200,30,30],[0,15,30]]\<close> and of \<open>[[128,128,128],[0,15,30]]\<close>
  under \<open>vibrant\<close>: its hue is 0.5833333333333334 and the result is \<open>[0,76,153]\<close> in
  both palettes.
\<close>

theorem C10_harmonize_frame_witness:
  "(1 :: nat) < length [(200, 30, 30), (0, 15, 30) :: rgb]
   \<and> (1 :: nat) < length [(128, 128, 128), (0, 15, 30) :: rgb]
   \<and> [(128, 128, 128), (0, 15, 30) :: rgb] ! 1 = [(200, 30, 30), (0, 15, 30)] ! 1
   \<and> harmonizeColorsD [(200, 30, 30), (0, 15, 30)] ''vibrant'' = [(230, 0, 0), (0, 76, 153)]
   \<and> harmonizeColorsD [(128, 128, 128), (0, 15, 30)] ''vibrant'' = [(217, 39, 39), (0, 76, 153)]
   \<and> harmonizeColorsD_App [(200, 30, 30), (0, 15, 30)] ''vibrant'' = [(230, 0, 0), (0, 76, 153)]
   \<and> harmonizeColorsD [(128, 128, 128), (0, 15, 30)] ''vibrant'' ! 1
       = harmonizeColorsD [(200, 30, 30), (0, 15, 30)] ''vibrant'' ! 1
   \<and> hslHueD (0, 15, 30) = 5254199565265579 / 9007199254740992
   \<and> hslToRgbD (hslHueD (0, 15, 30))
         (adjustSaturationD (paramsOf ''vibrant'') (hslSaturationD (0, 15, 30)))
         (adjustLightnessD (paramsOf ''vibrant'') (hslLightnessD (0, 15, 30))) = (0, 76, 153)"
proof -
  have a: "harmonizeColorsD [(200, 30, 30), (0, 15, 30)] ''vibrant'' = [(230, 0, 0), (0, 76, 153)]"
    by (simp add: harmonizeColorsD_def red_vibrant navy_vibrant)
  have b: "harmonizeColorsD [(128, 128, 128), (0, 15, 30)] ''vibrant'' = [(217, 39, 39), (0, 76, 153)]"
    by (simp add: harmonizeColorsD_def gray_vibrant navy_vibrant)
  have h: "hslHueD (0, 15, 30) = 5254199565265579 / 9007199254740992"
    by (simp add: hslHueD_def navy_hsl)
  have l: "(1 :: nat) < length [(200, 30, 30), (0, 15, 30) :: rgb]"
    "(1 :: nat) < length [(128, 128, 128), (0, 15, 30) :: rgb]"
    "[(128, 128, 128), (0, 15, 30) :: rgb] ! 1 = [(200, 30, 30), (0, 15, 30)] ! 1"
    by simp_all
  have p: "[(200, 30, 30), (0, 15, 30) :: rgb] ! 1 = (0, 15, 30)" by simp
  from C10_harmonize_frame [of "[(200, 30, 30), (0, 15, 30)]" "''vibrant''"] l(1)
  have "harmonizeColorsD [(200, 30, 30), (0, 15, 30)] ''vibrant'' ! 1
      = hslToRgbD (hslHueD ([(200, 30, 30), (0, 15, 30)] ! 1))
         (adjustSaturationD (paramsOf ''vibrant'') (hslSaturationD ([(200, 30, 30), (0, 15, 30)] ! 1)))
         (adjustLightnessD (paramsOf ''vibrant'') (hslLightnessD ([(200, 30, 30), (0, 15, 30)] ! 1)))"
    by blast
  then have c: "hslToRgbD (hslHueD (0, 15, 30))
         (adjustSaturationD (paramsOf ''vibrant'') (hslSaturationD (0, 15, 30)))
         (adjustLightnessD (paramsOf ''vibrant'') (hslLightnessD (0, 15, 30))) = (0, 76, 153)"
    unfolding p a by simp
  have a': "harmonizeColorsD_App [(200, 30, 30), (0, 15, 30)] ''vibrant'' = [(230, 0, 0), (0, 76, 153)]"
    by (simp add: harmonizeColorsD_App_def vibrant_App red_vibrant navy_vibrant)
  from C10_harmonize_frame [of "[(200, 30, 30), (0, 15, 30)]" "''vibrant''"] l
  have d: "harmonizeColorsD [(128, 128, 128), (0, 15, 30)] ''vibrant'' ! 1
       = harmonizeColorsD [(200, 30, 30), (0, 15, 30)] ''vibrant'' ! 1"
    by blast
  from l a b a' d h c show ?thesis by blast
qed

lemma pastel: "paramsOf ''pastel'' = Some (mkProfile 1.2 0.5 0.2 0.0 (Some (0.7, 0.95)) (Some (0.2, 0.6)))"
  by (simp add: paramsOf_def models_def)

lemma gray_hsl: "rgbToHsl (128, 128, 128) = (0, 0, 128 / 255)"
  by (simp add: rgbToHsl_def hslOfUnit_def)

lemma pastel_sat: "adjustSaturation (paramsOf ''pastel'') 0 = 0.2"
  by (simp add: pastel adjustSaturation_def mkProfile_def scaleShift_def clampRange_def clampUnit_def)

lemma pastel_light: "adjustLightness (paramsOf ''pastel'') (128 / 255) = 341 / 425"
  by (simp add: pastel adjustLightness_def mkProfile_def scaleShift_def clampRange_def clampUnit_def)

lemma pastel_rgb: "hslToRgb 0 (1 / 5) (341 / 425) = (215, 195, 195)"
  by (simp add: hslToRgb_def hslToUnit_def hue2rgb_def Let_def jsRound_def)

lemma pastel_out_sat: "hslSaturation (215, 195, 195) = 0.2"
  by (simp add: hslSaturation_def rgbToHsl_def hslOfUnit_def Let_def)

text \<open>
  Claim C8.  For the palette \<open>[[128,128,128]]\<close> and the profile \<open>pastel\<close>: the color has
  saturation 0; the multiplication and shift leave it at 0; the clamp to the range of the
  profile raises it to 0.2, which is the saturation handed to \<open>hslToRgb\<close>; the result is
  the color \<open>[215,195,195]\<close>, whose HSL saturation is 0.2.
\<close>

theorem C8_pastel_gray:
  "rgbToHsl (128, 128, 128) = (0, 0, 128 / 255)
   \<and> (\<exists>p. paramsOf ''pastel'' = Some p
          \<and> scaleShift (s_mult p) (s_shift p) 0 = 0
          \<and> clampRange (s_range p) 0 = 0.2)
   \<and> adjustSaturation (paramsOf ''pastel'') 0 = 0.2
   \<and> harmonizeColors [(128, 128, 128)] ''pastel'' = [(215, 195, 195)]
   \<and> hslSaturation (215, 195, 195) = 0.2"
proof -
  have steps: "\<exists>p. paramsOf ''pastel'' = Some p
          \<and> scaleShift (s_mult p) (s_shift p) 0 = 0
          \<and> clampRange (s_range p) 0 = 0.2"
    by (simp add: pastel mkProfile_def scaleShift_def clampRange_def)
  have out: "harmonizeColors [(128, 128, 128)] ''pastel'' = [(215, 195, 195)]"
    by (simp add: harmonizeColors_def harmonizeColor_def gray_hsl pastel_sat pastel_light pastel_rgb)
  from gray_hsl steps pastel_sat out pastel_out_sat show ?thesis by blast
qed

section \<open>Refinement of the palette\<close>

text \<open>
  A greedy filter that appends a color unless a test against the colors kept so far says
  no: in its result no color fails the test against the colors before it, and a list with
  that property is left as it is.
\<close>

lemma greedy_keeps_separated:
  fixes sim :: "'a \<Rightarrow> 'a list \<Rightarrow> bool"
  assumes "\<forall>i < length acc. \<not> sim (acc ! i) (take i acc)"
  shows "\<forall>i < length (foldl (\<lambda>kept c. if sim c kept then kept else kept @ [c]) acc cs).
           \<not> sim (foldl (\<lambda>kept c. if sim c kept then kept else kept @ [c]) acc cs ! i)
                 (take i (foldl (\<lambda>kept c. if sim c kept then kept else kept @ [c]) acc cs))"
  using assms
proof (induction cs arbitrary: acc)
  case Nil
  then show ?case by simp
next
  case (Cons c cs)
  show ?case
  proof (cases "sim c acc")
    case True
    with Cons.IH [OF Cons.prems] show ?thesis by simp
  next
    case False
    have "\<forall>i < length (acc @ [c]). \<not> sim ((acc @ [c]) ! i) (take i (acc @ [c]))"
    proof (intro allI impI)
      fix i assume "i < length (acc @ [c])"
      then consider "i < length acc" | "i = length acc" by fastforce
      then show "\<not> sim ((acc @ [c]) ! i) (take i (acc @ [c]))"
      proof cases
        case 1
        with Cons.prems show ?thesis by (simp add: nth_append)
      next
        case 2
        with False show ?thesis by simp
      qed
    qed
    from Cons.IH [OF this] False show ?thesis by simp
  qed
qed

lemma greedy_fixes_separated:
  fixes sim :: "'a \<Rightarrow> 'a list \<Rightarrow> bool"
  assumes "\<forall>i < length (acc @ ys). \<not> sim ((acc @ ys) ! i) (take i (acc @ ys))"
  shows "foldl (\<lambda>kept c. if sim c kept then kept else kept @ [c]) acc ys = acc @ ys"
  using assms
proof (induction ys arbitrary: acc)
  case Nil
  then show ?case by simp
next
  case (Cons y ys)
  have n: "\<not> sim y acc"
    using Cons.prems [rule_format, of "length acc"] by simp
  have "foldl (\<lambda>kept c. if sim c kept then kept else kept @ [c]) (acc @ [y]) ys = (acc @ [y]) @ ys"
    using Cons.prems by (intro Cons.IH) simp
  with n show ?case by simp
qed

lemma greedy_idempotent:
  fixes sim :: "'a \<Rightarrow> 'a list \<Rightarrow> bool"
  defines "F \<equiv> foldl (\<lambda>kept c. if sim c kept then kept else kept @ [c]) []"
  shows "F (F cs) = F cs"
proof -
  have "\<forall>i < length (F cs). \<not> sim (F cs ! i) (take i (F cs))"
    unfolding F_def by (rule greedy_keeps_separated) simp
  then show ?thesis
    unfolding F_def using greedy_fixes_separated [of "[]" _ sim] by simp
qed

lemma filterSimilarColors_fold:
  "filterSimilarColors cs threshold =
     foldl (\<lambda>kept c. if similarToKept c kept threshold then kept else kept @ [c]) [] cs"
proof (cases cs)
  case Nil
  then show ?thesis by (simp add: filterSimilarColors_def)
next
  case (Cons c rest)
  have k: "keepUnlessSimilar threshold = (\<lambda>kept c. if similarToKept c kept threshold then kept else kept @ [c])"
    by (intro ext) (simp add: keepUnlessSimilar_def)
  show ?thesis
  proof (cases rest)
    case Nil
    with Cons show ?thesis by (simp add: filterSimilarColors_def)
  next
    case (Cons c' rest')
    with \<open>cs = c # rest\<close> show ?thesis by (simp add: filterSimilarColors_def k)
  qed
qed

lemma filterSimilarColors_App_fold:
  "filterSimilarColors_App cs threshold =
     foldl (\<lambda>kept c. if list_ex (\<lambda>e. deltaE_App c e < threshold) kept then kept else kept @ [c]) [] cs"
proof -
  have "keepUnlessSimilar_App threshold
        = (\<lambda>kept c. if list_ex (\<lambda>e. deltaE_App c e < threshold) kept then kept else kept @ [c])"
    by (intro ext) (simp add: keepUnlessSimilar_App_def)
  then show ?thesis by (simp add: filterSimilarColors_App_def)
qed


text \<open>
  Claim C6.  For every list of colors and every threshold, \<open>filterSimilarColors\<close>
  applied to its own result, with the same threshold, returns that result; this holds
  for the function of each file.
\<close>

theorem C6_similarity_idempotent:
  "filterSimilarColors (filterSimilarColors cs threshold) threshold
     = filterSimilarColors cs threshold
   \<and> filterSimilarColors_App (filterSimilarColors_App cs threshold) threshold
     = filterSimilarColors_App cs threshold"
  unfolding filterSimilarColors_fold filterSimilarColors_App_fold
  using greedy_idempotent [of "\<lambda>c kept. similarToKept c kept threshold" cs]
    greedy_idempotent [of "\<lambda>c kept. list_ex (\<lambda>e. deltaE_App c e < threshold) kept" cs]
  by simp

lemma filteredPaletteD_finite:
  "filteredPaletteD (map Some palette) = filter inRangeD palette"
  by (induction palette) (simp_all add: filteredPaletteD_def)

lemma filteredPaletteD_App_finite:
  "filteredPaletteD_App (map Some palette) = filter inRangeD_App palette"
  by (induction palette) (simp_all add: filteredPaletteD_App_def)


text \<open>
  Claim C5, as amended.  In the newer file the range filter keeps, in their order, exactly
  the palette colors for which the lightness that \<open>rgbToHsl\<close> computes is greater than
  the double 0.1 and less than the double 0.95 and the saturation that \<open>rgbToHsl\<close>
  computes is greater than the double 0.1; lightness and saturation are the doubles of
  the program, not the exact quotients.  The range filter of \<open>src/App.jsx\<close> tests the
  lightness only: it keeps exactly the colors whose computed lightness is greater than
  the double 0.1 and less than the double 0.95, whatever their saturation.
\<close>

theorem C5_range_filter:
  "filteredPaletteD (map Some palette)
     = filter (\<lambda>c. hslLightnessD c > dbl 0.1 \<and> hslLightnessD c < dbl 0.95 \<and> hslSaturationD c > dbl 0.1) palette
   \<and> filteredPaletteD_App (map Some palette)
     = filter (\<lambda>c. hslLightnessD c > dbl 0.1 \<and> hslLightnessD c < dbl 0.95) palette"
proof -
  have "inRangeD = (\<lambda>c. hslLightnessD c > dbl 0.1 \<and> hslLightnessD c < dbl 0.95 \<and> hslSaturationD c > dbl 0.1)"
    by (intro ext) (simp add: inRangeD_def hslLightnessD_def hslSaturationD_def split: prod.splits)
  moreover have "inRangeD_App = (\<lambda>c. hslLightnessD c > dbl 0.1 \<and> hslLightnessD c < dbl 0.95)"
    by (intro ext) (simp add: inRangeD_App_def hslLightnessD_def split: prod.splits)
  ultimately show ?thesis
    by (simp add: filteredPaletteD_finite filteredPaletteD_App_finite)
qed

lemma gray_hslD: "rgbToHslD (128, 128, 128) = (0, 0, 282578800148737 / 562949953421312)"
  by (simp add: rgbToHslD_def hslOfUnitD_def dbl_run)

lemma slate_hslD:
  "rgbToHslD (27, 27, 33) = (6004799503160661 / 9007199254740992,
     3602879701896399 / 36028797018963968, 4238682002231055 / 36028797018963968)"
  by (simp add: rgbToHslD_def hslOfUnitD_def dbl_run)

lemma tenth: "dbl (1 / 10) = 3602879701896397 / 36028797018963968"
  by (simp add: dbl_run)

lemma ninetyfive: "dbl (19 / 20) = 4278419646001971 / 4503599627370496"
  by (simp add: dbl_run)

lemma slate_exact: "hslSaturation (27, 27, 33) = 1 / 10"
  by (simp add: hslSaturation_def rgbToHsl_def hslOfUnit_def Let_def)


text \<open>
  The gray \<open>[128,128,128]\<close> has saturation 0; the filter of \<open>src/App.jsx\<close> keeps it, the
  filter of the newer file drops it.  The color \<open>[27,27,33]\<close> has the exact saturation
  1/10; the program computes 0.10000000000000006 for it, which is greater than the double
  0.1, and the filter of the newer file keeps it.
\<close>

theorem C5_range_filter_counterexample:
  "filteredPaletteD_App [Some (128, 128, 128)] = [(128, 128, 128)]
   \<and> hslSaturationD (128, 128, 128) = 0
   \<and> filteredPaletteD [Some (128, 128, 128)] = []
   \<and> filteredPaletteD [Some (27, 27, 33)] = [(27, 27, 33)]
   \<and> hslSaturation (27, 27, 33) = 1 / 10
   \<and> hslSaturationD (27, 27, 33) = 3602879701896399 / 36028797018963968
   \<and> dbl (1 / 10) = 3602879701896397 / 36028797018963968"
  by (simp add: filteredPaletteD_App_def filteredPaletteD_def inRangeD_App_def inRangeD_def
      hslSaturationD_def gray_hslD slate_hslD tenth ninetyfive slate_exact)

section \<open>Palette expansion\<close>

text \<open>
  The sort is a stable insertion sort: it permutes its input, and it orders it by a key
  when the sign of the comparator is the sign of the difference of the keys.
\<close>

lemma mathRandom_range: "0 \<le> mathRandom rnd k \<and> mathRandom rnd k < 1"
  using Rep_unitReal [of "rnd k"] by (simp add: mathRandom_def)

lemma mset_insertSorted: "mset (insertSorted cmp x ys) = add_mset x (mset ys)"
  by (induction ys) simp_all

lemma mset_jsSort: "mset (jsSort cmp xs) = mset xs"
  by (induction xs) (simp_all add: jsSort_def mset_insertSorted)

lemma set_jsSort: "set (jsSort cmp xs) = set xs"
  using mset_jsSort [of cmp xs] by (metis set_mset_mset)

lemma length_jsSort: "length (jsSort cmp xs) = length xs"
  using mset_jsSort [of cmp xs] by (metis size_mset)

lemma sorted_insertSorted_sign:
  fixes key :: "'a \<Rightarrow> real"
  assumes "\<forall>y \<in> set ys. (cmp x y \<le> 0) = (key y \<le> key x)"
    and "sorted_wrt (\<lambda>a b. key a \<ge> key b) ys"
  shows "sorted_wrt (\<lambda>a b. key a \<ge> key b) (insertSorted cmp x ys)"
  using assms
proof (induction ys)
  case Nil
  then show ?case by simp
next
  case (Cons y ys)
  show ?case
  proof (cases "cmp x y \<le> 0")
    case True
    with Cons.prems have "key y \<le> key x" by simp
    with Cons.prems True show ?thesis by (auto intro: order_trans)
  next
    case False
    with Cons.prems have "key x < key y" by simp
    moreover have "sorted_wrt (\<lambda>a b. key a \<ge> key b) (insertSorted cmp x ys)"
      using Cons.prems by (intro Cons.IH) simp_all
    moreover have "set (insertSorted cmp x ys) = insert x (set ys)"
      using mset_insertSorted [of cmp x ys] by (metis set_mset_add_mset_insert set_mset_mset)
    ultimately show ?thesis using Cons.prems False by auto
  qed
qed

lemma sorted_jsSort_sign:
  fixes key :: "'a \<Rightarrow> real"
  assumes "\<forall>x \<in> set xs. \<forall>y \<in> set xs. (cmp x y \<le> 0) = (key y \<le> key x)"
  shows "sorted_wrt (\<lambda>a b. key a \<ge> key b) (jsSort cmp xs)"
  using assms
proof (induction xs)
  case Nil
  then show ?case by (simp add: jsSort_def)
next
  case (Cons x xs)
  have "sorted_wrt (\<lambda>a b. key a \<ge> key b) (jsSort cmp xs)"
    using Cons.prems by (intro Cons.IH) simp
  moreover have "\<forall>y \<in> set (jsSort cmp xs). (cmp x y \<le> 0) = (key y \<le> key x)"
    using Cons.prems by (simp add: set_jsSort)
  ultimately have "sorted_wrt (\<lambda>a b. key a \<ge> key b) (insertSorted cmp x (jsSort cmp xs))"
    by (intro sorted_insertSorted_sign)
  then show ?case by (simp add: jsSort_def)
qed


lemma insertSorted_map:
  "insertSorted cmp (g x) (map g ys) = map g (insertSorted (\<lambda>a b. cmp (g a) (g b)) x ys)"
  by (induction ys) simp_all

lemma jsSort_map: "jsSort cmp (map g xs) = map g (jsSort (\<lambda>a b. cmp (g a) (g b)) xs)"
  by (induction xs) (simp_all add: jsSort_def insertSorted_map)

lemma jsDiv_ramp: "n \<noteq> 1 \<Longrightarrow> jsDiv x (real n - 1) = Some (x / (real n - 1))"
  by (simp add: jsDiv_def)

lemma jsDiv_single: "jsDiv x (real (1 :: nat) - 1) = None"
  by (simp add: jsDiv_def)

lemma variations_finite:
  assumes "n \<noteq> 1"
  shows "map (variationAt rnd k0 h s n) [0..<n]
       = map Some (map (\<lambda>i. hslToRgb (jsMod1 (h + hueJitter rnd (k0 + 2 * i)))
                                 (min 1 (max 0 (s + saturationJitter rnd (k0 + 2 * i + 1))))
                                 (0.15 + 0.7 * (real i / (real n - 1)))) [0..<n])"
  by (simp add: variationAt_def jsDiv_ramp [OF assms])

lemma variations_App_finite:
  assumes "n \<noteq> 1"
  shows "map (variationAt_App h s n) [0..<n]
       = map Some (map (\<lambda>i. hslToRgb h s (0.1 + 0.8 * real i / (real n - 1))) [0..<n])"
  by (simp add: variationAt_App_def jsDiv_ramp [OF assms])

lemma descending_cmp:
  "(\<lambda>a b. byLightnessDescending (Some a) (Some b)) = (\<lambda>a b. hslLightness b - hslLightness a)"
  by (intro ext) (simp add: byLightnessDescending_def)

lemma ascending_cmp:
  "(\<lambda>a b. byLightnessAscending (Some a) (Some b)) = (\<lambda>a b. (- hslLightness b) - (- hslLightness a))"
  by (intro ext) (simp add: byLightnessAscending_def)

lemma generateColorVariations_finite:
  assumes "n \<noteq> 1"
  shows "fst (generateColorVariations rnd k0 base n)
       = map Some (jsSort (\<lambda>a b. hslLightness b - hslLightness a)
           (map (\<lambda>i. hslToRgb (jsMod1 (hslHue base + hueJitter rnd (k0 + 2 * i)))
                         (min 1 (max 0 (hslSaturation base + saturationJitter rnd (k0 + 2 * i + 1))))
                         (0.15 + 0.7 * (real i / (real n - 1)))) [0..<n]))"
proof -
  obtain h s l where hsl: "rgbToHsl base = (h, s, l)" by (cases "rgbToHsl base") auto
  have hs: "hslHue base = h" "hslSaturation base = s"
    by (simp_all add: hslHue_def hslSaturation_def hsl)
  have "fst (generateColorVariations rnd k0 base n)
        = jsSort byLightnessDescending (map (variationAt rnd k0 h s n) [0..<n])"
    by (simp add: generateColorVariations_def hsl Let_def)
  also have "\<dots> = jsSort byLightnessDescending
      (map Some (map (\<lambda>i. hslToRgb (jsMod1 (h + hueJitter rnd (k0 + 2 * i)))
                                 (min 1 (max 0 (s + saturationJitter rnd (k0 + 2 * i + 1))))
                                 (0.15 + 0.7 * (real i / (real n - 1)))) [0..<n]))"
    by (simp only: variations_finite [OF assms])
  also have "\<dots> = map Some (jsSort (\<lambda>a b. byLightnessDescending (Some a) (Some b))
      (map (\<lambda>i. hslToRgb (jsMod1 (h + hueJitter rnd (k0 + 2 * i)))
                                 (min 1 (max 0 (s + saturationJitter rnd (k0 + 2 * i + 1))))
                                 (0.15 + 0.7 * (real i / (real n - 1)))) [0..<n]))"
    by (rule jsSort_map)
  finally show ?thesis by (simp only: descending_cmp hs)
qed

lemma generateColorVariations_App_finite:
  assumes "n \<noteq> 1"
  shows "generateColorVariations_App base n
       = map Some (jsSort (\<lambda>a b. (- hslLightness b) - (- hslLightness a))
           (map (\<lambda>i. hslToRgb (hslHue base) (hslSaturation base) (0.1 + 0.8 * real i / (real n - 1)))
              [0..<n]))"
proof -
  obtain h s l where hsl: "rgbToHsl base = (h, s, l)" by (cases "rgbToHsl base") auto
  have hs: "hslHue base = h" "hslSaturation base = s"
    by (simp_all add: hslHue_def hslSaturation_def hsl)
  have "generateColorVariations_App base n
        = jsSort byLightnessAscending (map (variationAt_App h s n) [0..<n])"
    by (simp add: generateColorVariations_App_def hsl)
  also have "\<dots> = jsSort byLightnessAscending
      (map Some (map (\<lambda>i. hslToRgb h s (0.1 + 0.8 * real i / (real n - 1))) [0..<n]))"
    by (simp only: variations_App_finite [OF assms])
  also have "\<dots> = map Some (jsSort (\<lambda>a b. byLightnessAscending (Some a) (Some b))
      (map (\<lambda>i. hslToRgb h s (0.1 + 0.8 * real i / (real n - 1))) [0..<n]))"
    by (rule jsSort_map)
  finally show ?thesis by (simp only: ascending_cmp hs)
qed

lemma generateColorVariations_single:
  "fst (generateColorVariations rnd k0 base 1) = [None]"
  by (simp add: generateColorVariations_def variationAt_def jsDiv_def jsSort_def split: prod.splits)

lemma generateColorVariations_App_single:
  "generateColorVariations_App base 1 = [None]"
  by (simp add: generateColorVariations_App_def variationAt_App_def jsDiv_def jsSort_def split: prod.splits)

lemma noJitter_value: "mathRandom noJitter k = 1 / 2"
  by (simp add: mathRandom_def noJitter_def Abs_unitReal_inverse)


text \<open>
  The generator as the program computes it.  A random number lies between 0 and 1, so
  the jitter of the hue is at most the double 0.025 and that of the saturation at most
  the double 0.05 in absolute value; the lightness \<open>0.15 + 0.7 * t\<close> is the double 0.15
  in the first round, the double 0.85 in the last, and between the two in every round.
  The lightness that the program computes in a round differs from the exact value of
  the formula by \<open>1 / 2 ^ 50\<close> at most, in both source files.
\<close>

lemma jitter_bound:
  assumes "0 \<le> c"
  shows "\<bar>dbl (dbl (mathRandom rnd k - 1 / 2) * c)\<bar> \<le> dbl (c / 2)"
proof -
  from mathRandom_range [of rnd k] have "\<bar>mathRandom rnd k - 1 / 2\<bar> \<le> 1 / 2" by linarith
  from dbl_abs_le [OF this] have "\<bar>dbl (mathRandom rnd k - 1 / 2)\<bar> \<le> 1 / 2" by (simp only: dbl_half)
  then have "\<bar>dbl (mathRandom rnd k - 1 / 2)\<bar> * c \<le> 1 / 2 * c" using assms by (intro mult_right_mono)
  then have "\<bar>dbl (mathRandom rnd k - 1 / 2) * c\<bar> \<le> c / 2" using assms by (simp add: abs_mult)
  then show ?thesis by (rule dbl_abs_le)
qed

lemma hueJitterD_bound: "\<bar>hueJitterD rnd k\<bar> \<le> dbl 0.025"
proof -
  have "0 \<le> dbl (1 / 20)" by (rule dbl_nonneg) simp
  from jitter_bound [OF this, of rnd k] show ?thesis by (simp add: hueJitterD_def dbl_literals)
qed

lemma saturationJitterD_bound: "\<bar>saturationJitterD rnd k\<bar> \<le> dbl 0.05"
proof -
  have "0 \<le> dbl (1 / 10)" by (rule dbl_nonneg) simp
  from jitter_bound [OF this, of rnd k] show ?thesis by (simp add: saturationJitterD_def dbl_literals)
qed

text \<open>The lightness of round \<open>i\<close>: \<open>0.15 + 0.7 * t\<close> with \<open>t = i / (numVariations - 1)\<close>.\<close>

lemma ramp_first: "dbl (dbl 0.15 + dbl (dbl 0.7 * dbl (real 0 / (real n - 1)))) = dbl 0.15"
  by (simp add: dbl_zero dbl_literals)

lemma ramp_last:
  assumes "2 \<le> n"
  shows "dbl (dbl 0.15 + dbl (dbl 0.7 * dbl (real (n - 1) / (real n - 1)))) = dbl 0.85"
proof -
  from assms have one: "real (n - 1) / (real n - 1) = 1" by (simp add: of_nat_diff)
  show ?thesis by (simp only: one dbl_one mult_1_right) (simp add: dbl_literals)
qed

lemma ramp_range:
  assumes "2 \<le> n" and "i < n"
  shows "dbl 0.15 \<le> dbl (dbl 0.15 + dbl (dbl 0.7 * dbl (real i / (real n - 1))))
       \<and> dbl (dbl 0.15 + dbl (dbl 0.7 * dbl (real i / (real n - 1)))) \<le> dbl 0.85"
proof -
  define t where "t = dbl (real i / (real n - 1))"
  from assms have q: "0 \<le> real i / (real n - 1)" "real i / (real n - 1) \<le> 1" by simp_all
  from dbl_mono [OF q(1)] dbl_mono [OF q(2)] have t: "0 \<le> t" "t \<le> 1"
    by (simp_all add: t_def dbl_zero dbl_one)
  have c: "0 \<le> dbl (7 / 10)" by (rule dbl_nonneg) simp
  from t c have "0 \<le> dbl (7 / 10) * t" "dbl (7 / 10) * t \<le> dbl (7 / 10)"
    by (simp_all add: mult_left_le)
  from dbl_mono [OF this(1)] dbl_mono [OF this(2)]
  have u: "0 \<le> dbl (dbl (7 / 10) * t)" "dbl (dbl (7 / 10) * t) \<le> dbl (7 / 10)"
    by (simp_all add: dbl_zero dbl_literals)
  then have "dbl (3 / 20) \<le> dbl (3 / 20) + dbl (dbl (7 / 10) * t)"
    "dbl (3 / 20) + dbl (dbl (7 / 10) * t) \<le> dbl (3 / 20) + dbl (7 / 10)" by simp_all
  from dbl_mono [OF this(1)] dbl_mono [OF this(2)]
  have "dbl (3 / 20) \<le> dbl (dbl (3 / 20) + dbl (dbl (7 / 10) * t))"
    "dbl (dbl (3 / 20) + dbl (dbl (7 / 10) * t)) \<le> dbl (17 / 20)"
    by (simp_all add: dbl_literals)
  then show ?thesis by (simp add: t_def)
qed

lemma ramp_App_first: "dbl (dbl 0.1 + dbl (dbl (dbl 0.8 * real 0) / (real n - 1))) = dbl 0.1"
  by (simp add: dbl_zero dbl_literals)

lemma ramp_near:
  assumes "2 \<le> n" and "i < n"
  shows "\<bar>dbl (dbl 0.15 + dbl (dbl 0.7 * dbl (real i / (real n - 1))))
           - (0.15 + 0.7 * (real i / (real n - 1)))\<bar> \<le> 1 / 2 ^ 50"
proof -
  define eps :: real where "eps = 1 / 2 ^ 53"
  define q where "q = real i / (real n - 1)"
  define t where "t = dbl q"
  define c7 where "c7 = dbl (7 / 10)"
  define c15 where "c15 = dbl (3 / 20)"
  define w where "w = dbl (c7 * t)"
  have eps0: "0 \<le> eps" "eps \<le> 1 / 20" and eps8: "8 * eps = 1 / 2 ^ 50" by (simp_all add: eps_def)
  from assms have q: "0 \<le> q" "q \<le> 1" by (simp_all add: q_def)
  from dbl_unit [OF q] have t: "0 \<le> t" "t \<le> 1" by (simp_all add: t_def)
  have tq: "\<bar>t - q\<bar> \<le> eps" using dbl_err_le [of q 1] q by (simp add: t_def eps_def)
  have c7: "0 \<le> c7" "c7 \<le> 1" using dbl_unit [of "7 / 10"] by (simp_all add: c7_def)
  have c7e: "\<bar>c7 - 7 / 10\<bar> \<le> eps" using dbl_err_le [of "7 / 10" 1] by (simp add: c7_def eps_def)
  have c15: "0 \<le> c15" "c15 \<le> 1" using dbl_unit [of "3 / 20"] by (simp_all add: c15_def)
  have c15e: "\<bar>c15 - 3 / 20\<bar> \<le> eps" using dbl_err_le [of "3 / 20" 1] by (simp add: c15_def eps_def)
  from t c7 have p: "0 \<le> c7 * t" "c7 * t \<le> 1" by (simp_all add: mult_le_one)
  have wp: "\<bar>w - c7 * t\<bar> \<le> eps" using dbl_err_le [of "c7 * t" 1] p by (simp add: w_def eps_def)
  have split: "c7 * t - 7 / 10 * q = (c7 - 7 / 10) * t + 7 / 10 * (t - q)" by (simp add: field_simps)
  have a: "\<bar>(c7 - 7 / 10) * t\<bar> \<le> eps"
  proof -
    have "\<bar>(c7 - 7 / 10) * t\<bar> = \<bar>c7 - 7 / 10\<bar> * t" by (simp only: abs_mult abs_of_nonneg [OF t(1)])
    also have "\<dots> \<le> \<bar>c7 - 7 / 10\<bar> * 1" using t by (intro mult_left_mono) simp_all
    finally show ?thesis using c7e by simp
  qed
  have b: "\<bar>7 / 10 * (t - q)\<bar> \<le> eps"
  proof -
    have "\<bar>7 / 10 * (t - q)\<bar> = 7 / 10 * \<bar>t - q\<bar>" by (simp only: abs_mult)
    also have "\<dots> \<le> 1 * \<bar>t - q\<bar>" by (intro mult_right_mono) simp_all
    finally show ?thesis using tq by simp
  qed
  from split a b have pq: "\<bar>c7 * t - 7 / 10 * q\<bar> \<le> 2 * eps" by linarith
  from wp pq have wq: "\<bar>w - 7 / 10 * q\<bar> \<le> 3 * eps" by linarith
  have wb: "0 \<le> w" "w \<le> 1" using dbl_unit [OF p] by (simp_all add: w_def)
  have l: "\<bar>dbl (c15 + w) - (c15 + w)\<bar> \<le> 2 * eps"
    using dbl_err_le [of "c15 + w" 2] c15 wb by (simp add: eps_def)
  from l c15e wq have "\<bar>dbl (c15 + w) - (3 / 20 + 7 / 10 * q)\<bar> \<le> 8 * eps" using eps0 by linarith
  then have "\<bar>dbl (c15 + w) - (3 / 20 + 7 / 10 * q)\<bar> \<le> 1 / 2 ^ 50" by (simp only: eps8)
  then show ?thesis by (simp add: c15_def w_def c7_def t_def q_def)
qed

lemma ramp_App_near:
  assumes "2 \<le> n" and "i < n"
  shows "\<bar>dbl (dbl 0.1 + dbl (dbl (dbl 0.8 * real i) / (real n - 1)))
           - (0.1 + 0.8 * real i / (real n - 1))\<bar> \<le> 1 / 2 ^ 50"
proof -
  define eps :: real where "eps = 1 / 2 ^ 53"
  define k where "k = real n - 1"
  define x where "x = real i / k"
  define c8 where "c8 = dbl (4 / 5)"
  define c1 where "c1 = dbl (1 / 10)"
  define v where "v = dbl (c8 * real i)"
  define u where "u = v / k"
  have eps0: "0 \<le> eps" "eps \<le> 1 / 20" and eps8: "8 * eps = 1 / 2 ^ 50" by (simp_all add: eps_def)
  from assms have k: "1 \<le> k" "real i \<le> k" by (simp_all add: k_def)
  then have x: "0 \<le> x" "x \<le> 1" by (simp_all add: x_def)
  have c8: "0 \<le> c8" "c8 \<le> 1" using dbl_unit [of "4 / 5"] by (simp_all add: c8_def)
  have c8e: "\<bar>c8 - 4 / 5\<bar> \<le> eps" using dbl_err_le [of "4 / 5" 1] by (simp add: c8_def eps_def)
  have c1: "0 \<le> c1" "c1 \<le> 1" using dbl_unit [of "1 / 10"] by (simp_all add: c1_def)
  have c1e: "\<bar>c1 - 1 / 10\<bar> \<le> eps" using dbl_err_le [of "1 / 10" 1] by (simp add: c1_def eps_def)
  have ci: "\<bar>c8 * real i\<bar> \<le> k"
  proof -
    have "c8 * real i \<le> 1 * real i" using c8 by (intro mult_right_mono) simp_all
    with k c8 show ?thesis by simp
  qed
  from dbl_err_le [OF ci] have "\<bar>v - c8 * real i\<bar> \<le> k * eps" by (simp add: v_def eps_def)
  then have "\<bar>v - c8 * real i\<bar> / k \<le> (k * eps) / k" using k by (intro divide_right_mono) simp_all
  moreover have "\<bar>v - c8 * real i\<bar> / k = \<bar>u - c8 * x\<bar>"
  proof -
    have "\<bar>v - c8 * real i\<bar> / k = \<bar>(v - c8 * real i) / k\<bar>" using k by simp
    also have "\<dots> = \<bar>u - c8 * x\<bar>" by (simp add: u_def x_def diff_divide_distrib)
    finally show ?thesis .
  qed
  ultimately have ue: "\<bar>u - c8 * x\<bar> \<le> eps" using k by simp
  have split: "c8 * x - 4 / 5 * x = (c8 - 4 / 5) * x" by (simp only: left_diff_distrib)
  have a: "\<bar>(c8 - 4 / 5) * x\<bar> \<le> eps"
  proof -
    have "\<bar>(c8 - 4 / 5) * x\<bar> = \<bar>c8 - 4 / 5\<bar> * x" by (simp only: abs_mult abs_of_nonneg [OF x(1)])
    also have "\<dots> \<le> \<bar>c8 - 4 / 5\<bar> * 1" using x by (intro mult_left_mono) simp_all
    finally show ?thesis using c8e by simp
  qed
  from split a ue have uq: "\<bar>u - 4 / 5 * x\<bar> \<le> 2 * eps" by linarith
  from uq x eps0 have ub: "\<bar>u\<bar> \<le> 1" by linarith
  have du: "\<bar>dbl u - u\<bar> \<le> eps" using dbl_err_le [OF ub] by (simp add: eps_def)
  from dbl_abs_le [OF ub] have db: "\<bar>dbl u\<bar> \<le> 1" by (simp only: dbl_one)
  have cb: "\<bar>c1 + dbl u\<bar> \<le> 2" using c1 db by linarith
  have l: "\<bar>dbl (c1 + dbl u) - (c1 + dbl u)\<bar> \<le> 2 * eps" using dbl_err_le [OF cb] by (simp add: eps_def)
  from l c1e du uq have "\<bar>dbl (c1 + dbl u) - (1 / 10 + 4 / 5 * x)\<bar> \<le> 8 * eps" using eps0 by linarith
  then have "\<bar>dbl (c1 + dbl u) - (1 / 10 + 4 / 5 * x)\<bar> \<le> 1 / 2 ^ 50" by (simp only: eps8)
  then show ?thesis by (simp add: c1_def u_def v_def c8_def x_def k_def)
qed


lemma jitter_constants: "dbl 0.025 - 0.025 \<le> 1 / 2 ^ 59" "dbl 0.05 - 0.05 \<le> 1 / 2 ^ 58"
  by (simp_all add: dbl_run)

lemma variationsD_finite:
  assumes "n \<noteq> 1"
  shows "map (variationAtD rnd k0 h s n) [0..<n]
       = map Some (map (\<lambda>i. hslToRgbD (jsMod1 (dbl (h + hueJitterD rnd (k0 + 2 * i))))
                                 (min 1 (max 0 (dbl (s + saturationJitterD rnd (k0 + 2 * i + 1)))))
                                 (dbl (dbl 0.15 + dbl (dbl 0.7 * dbl (real i / (real n - 1)))))) [0..<n])"
  by (simp add: variationAtD_def jsDiv_ramp [OF assms])

lemma variationsD_App_finite:
  assumes "n \<noteq> 1"
  shows "map (variationAtD_App h s n) [0..<n]
       = map Some (map (\<lambda>i. hslToRgbD h s (dbl (dbl 0.1 + dbl (dbl (dbl 0.8 * real i) / (real n - 1)))))
                     [0..<n])"
  by (simp add: variationAtD_App_def jsDiv_ramp [OF assms])

lemma descendingD_cmp:
  "(\<lambda>a b. byLightnessDescendingD (Some a) (Some b)) = (\<lambda>a b. dbl (hslLightnessD b - hslLightnessD a))"
  by (intro ext) (simp add: byLightnessDescendingD_def)

lemma ascendingD_cmp:
  "(\<lambda>a b. byLightnessAscendingD (Some a) (Some b)) = (\<lambda>a b. dbl (hslLightnessD a - hslLightnessD b))"
  by (intro ext) (simp add: byLightnessAscendingD_def)

lemma generateColorVariationsD_finite:
  assumes "n \<noteq> 1"
  shows "fst (generateColorVariationsD rnd k0 base n)
       = map Some (jsSort (\<lambda>a b. dbl (hslLightnessD b - hslLightnessD a))
           (map (\<lambda>i. hslToRgbD (jsMod1 (dbl (hslHueD base + hueJitterD rnd (k0 + 2 * i))))
                         (min 1 (max 0 (dbl (hslSaturationD base + saturationJitterD rnd (k0 + 2 * i + 1)))))
                         (dbl (dbl 0.15 + dbl (dbl 0.7 * dbl (real i / (real n - 1)))))) [0..<n]))"
proof -
  obtain h s l where hsl: "rgbToHslD base = (h, s, l)" by (cases "rgbToHslD base") auto
  have hs: "hslHueD base = h" "hslSaturationD base = s"
    by (simp_all add: hslHueD_def hslSaturationD_def hsl)
  have "fst (generateColorVariationsD rnd k0 base n)
        = jsSort byLightnessDescendingD (map (variationAtD rnd k0 h s n) [0..<n])"
    by (simp add: generateColorVariationsD_def hsl Let_def)
  also have "\<dots> = jsSort byLightnessDescendingD
      (map Some (map (\<lambda>i. hslToRgbD (jsMod1 (dbl (h + hueJitterD rnd (k0 + 2 * i))))
                                 (min 1 (max 0 (dbl (s + saturationJitterD rnd (k0 + 2 * i + 1)))))
                                 (dbl (dbl 0.15 + dbl (dbl 0.7 * dbl (real i / (real n - 1)))))) [0..<n]))"
    by (simp only: variationsD_finite [OF assms])
  also have "\<dots> = map Some (jsSort (\<lambda>a b. byLightnessDescendingD (Some a) (Some b))
      (map (\<lambda>i. hslToRgbD (jsMod1 (dbl (h + hueJitterD rnd (k0 + 2 * i))))
                                 (min 1 (max 0 (dbl (s + saturationJitterD rnd (k0 + 2 * i + 1)))))
                                 (dbl (dbl 0.15 + dbl (dbl 0.7 * dbl (real i / (real n - 1)))))) [0..<n]))"
    by (rule jsSort_map)
  finally show ?thesis by (simp only: descendingD_cmp hs)
qed

lemma generateColorVariationsD_App_finite:
  assumes "n \<noteq> 1"
  shows "generateColorVariationsD_App base n
       = map Some (jsSort (\<lambda>a b. dbl (hslLightnessD a - hslLightnessD b))
           (map (\<lambda>i. hslToRgbD (hslHueD base) (hslSaturationD base)
                         (dbl (dbl 0.1 + dbl (dbl (dbl 0.8 * real i) / (real n - 1))))) [0..<n]))"
proof -
  obtain h s l where hsl: "rgbToHslD base = (h, s, l)" by (cases "rgbToHslD base") auto
  have hs: "hslHueD base = h" "hslSaturationD base = s"
    by (simp_all add: hslHueD_def hslSaturationD_def hsl)
  have "generateColorVariationsD_App base n
        = jsSort byLightnessAscendingD (map (variationAtD_App h s n) [0..<n])"
    by (simp add: generateColorVariationsD_App_def hsl)
  also have "\<dots> = jsSort byLightnessAscendingD
      (map Some (map (\<lambda>i. hslToRgbD h s (dbl (dbl 0.1 + dbl (dbl (dbl 0.8 * real i) / (real n - 1)))))
                   [0..<n]))"
    by (simp only: variationsD_App_finite [OF assms])
  also have "\<dots> = map Some (jsSort (\<lambda>a b. byLightnessAscendingD (Some a) (Some b))
      (map (\<lambda>i. hslToRgbD h s (dbl (dbl 0.1 + dbl (dbl (dbl 0.8 * real i) / (real n - 1)))))
                   [0..<n]))"
    by (rule jsSort_map)
  finally show ?thesis by (simp only: ascendingD_cmp hs)
qed


text \<open>
  Claim C3, as amended.  For every seed color with channels in 0..255 and every count
  \<open>n\<close> of at least 2, \<open>generateColorVariations\<close> of the newer file returns exactly \<open>n\<close>
  colors with finite channels, sorted by descending HSL lightness; they are, in some
  order, the colors that \<open>hslToRgb\<close> gives at the lightness \<open>0.15 + 0.7 * (i / (n - 1))\<close>
  for \<open>i\<close> from 0 to \<open>n - 1\<close> (the double 0.15 for the first, the double 0.85 for the
  last, between the two and within \<open>1 / 2 ^ 50\<close> of the exact value for every \<open>i\<close>), at
  the hue of the seed plus a jitter of at most the double 0.025 in absolute value (taken
  \<open>% 1\<close>) and at the saturation of the seed plus a jitter of at most the double 0.05 in
  absolute value (clamped to 0..1); the two doubles exceed 0.025 and 0.05 by less than
  \<open>1 / 2 ^ 58\<close>.  \<open>generateColorVariations\<close> of \<open>src/App.jsx\<close> returns exactly \<open>n\<close>
  colors with finite channels, sorted by ascending HSL lightness: in some order, the
  colors that \<open>hslToRgb\<close> gives at the hue and the saturation of the seed, without
  jitter, at the lightness \<open>0.1 + (0.8 * i) / (n - 1)\<close> (the double 0.1 for the first,
  within \<open>1 / 2 ^ 50\<close> of the exact value for every \<open>i\<close>, so from 0.1 to 0.9).  Every
  quantity is the double that the program computes.
\<close>

theorem C3_variations:
  assumes "2 \<le> n" and "validColor base"
  shows "(\<exists>cs. fst (generateColorVariationsD rnd k0 base n) = map Some cs
            \<and> length cs = n
            \<and> sorted_wrt (\<lambda>a b. hslLightnessD a \<ge> hslLightnessD b) cs
            \<and> mset cs = mset (map (\<lambda>i. hslToRgbD
                                 (jsMod1 (dbl (hslHueD base + hueJitterD rnd (k0 + 2 * i))))
                                 (min 1 (max 0 (dbl (hslSaturationD base + saturationJitterD rnd (k0 + 2 * i + 1)))))
                                 (dbl (dbl 0.15 + dbl (dbl 0.7 * dbl (real i / (real n - 1)))))) [0..<n]))
       \<and> \<bar>hueJitterD rnd k\<bar> \<le> dbl 0.025 \<and> \<bar>saturationJitterD rnd k\<bar> \<le> dbl 0.05
       \<and> dbl 0.025 - 0.025 \<le> 1 / 2 ^ 59 \<and> dbl 0.05 - 0.05 \<le> 1 / 2 ^ 58
       \<and> dbl (dbl 0.15 + dbl (dbl 0.7 * dbl (real 0 / (real n - 1)))) = dbl 0.15
       \<and> dbl (dbl 0.15 + dbl (dbl 0.7 * dbl (real (n - 1) / (real n - 1)))) = dbl 0.85
       \<and> (\<forall>i < n. dbl 0.15 \<le> dbl (dbl 0.15 + dbl (dbl 0.7 * dbl (real i / (real n - 1))))
                 \<and> dbl (dbl 0.15 + dbl (dbl 0.7 * dbl (real i / (real n - 1)))) \<le> dbl 0.85
                 \<and> \<bar>dbl (dbl 0.15 + dbl (dbl 0.7 * dbl (real i / (real n - 1))))
                      - (0.15 + 0.7 * (real i / (real n - 1)))\<bar> \<le> 1 / 2 ^ 50)
       \<and> (\<exists>cs. generateColorVariationsD_App base n = map Some cs
            \<and> length cs = n
            \<and> sorted_wrt (\<lambda>a b. hslLightnessD a \<le> hslLightnessD b) cs
            \<and> mset cs = mset (map (\<lambda>i. hslToRgbD (hslHueD base) (hslSaturationD base)
                                 (dbl (dbl 0.1 + dbl (dbl (dbl 0.8 * real i) / (real n - 1))))) [0..<n]))
       \<and> dbl (dbl 0.1 + dbl (dbl (dbl 0.8 * real 0) / (real n - 1))) = dbl 0.1
       \<and> (\<forall>i < n. \<bar>dbl (dbl 0.1 + dbl (dbl (dbl 0.8 * real i) / (real n - 1)))
                      - (0.1 + 0.8 * real i / (real n - 1))\<bar> \<le> 1 / 2 ^ 50)"
proof -
  from assms(1) have n1: "n \<noteq> 1" by simp
  define raw where "raw = map (\<lambda>i. hslToRgbD
                                 (jsMod1 (dbl (hslHueD base + hueJitterD rnd (k0 + 2 * i))))
                                 (min 1 (max 0 (dbl (hslSaturationD base + saturationJitterD rnd (k0 + 2 * i + 1)))))
                                 (dbl (dbl 0.15 + dbl (dbl 0.7 * dbl (real i / (real n - 1)))))) [0..<n]"
  define cs where "cs = jsSort (\<lambda>a b. dbl (hslLightnessD b - hslLightnessD a)) raw"
  have "fst (generateColorVariationsD rnd k0 base n) = map Some cs"
    unfolding cs_def raw_def by (rule generateColorVariationsD_finite [OF n1])
  moreover have "length cs = n" by (simp add: cs_def raw_def length_jsSort)
  moreover have "sorted_wrt (\<lambda>a b. hslLightnessD a \<ge> hslLightnessD b) cs"
    unfolding cs_def by (rule sorted_jsSort_sign [where key = hslLightnessD]) (simp add: dbl_diff_sign)
  moreover have "mset cs = mset raw" by (simp add: cs_def mset_jsSort)
  ultimately have newer: "\<exists>cs. fst (generateColorVariationsD rnd k0 base n) = map Some cs
            \<and> length cs = n
            \<and> sorted_wrt (\<lambda>a b. hslLightnessD a \<ge> hslLightnessD b) cs
            \<and> mset cs = mset raw"
    by blast
  define raw' where "raw' = map (\<lambda>i. hslToRgbD (hslHueD base) (hslSaturationD base)
                                 (dbl (dbl 0.1 + dbl (dbl (dbl 0.8 * real i) / (real n - 1))))) [0..<n]"
  define cs' where "cs' = jsSort (\<lambda>a b. dbl (hslLightnessD a - hslLightnessD b)) raw'"
  have "generateColorVariationsD_App base n = map Some cs'"
    unfolding cs'_def raw'_def by (rule generateColorVariationsD_App_finite [OF n1])
  moreover have "length cs' = n" by (simp add: cs'_def raw'_def length_jsSort)
  moreover have "sorted_wrt (\<lambda>a b. - hslLightnessD a \<ge> - hslLightnessD b) cs'"
    unfolding cs'_def by (rule sorted_jsSort_sign [where key = "\<lambda>c. - hslLightnessD c"])
      (simp add: dbl_diff_sign)
  then have "sorted_wrt (\<lambda>a b. hslLightnessD a \<le> hslLightnessD b) cs'" by simp
  moreover have "mset cs' = mset raw'" by (simp add: cs'_def mset_jsSort)
  ultimately have older: "\<exists>cs. generateColorVariationsD_App base n = map Some cs
            \<and> length cs = n
            \<and> sorted_wrt (\<lambda>a b. hslLightnessD a \<le> hslLightnessD b) cs
            \<and> mset cs = mset raw'"
    by blast
  from newer have A: "\<exists>cs. fst (generateColorVariationsD rnd k0 base n) = map Some cs
            \<and> length cs = n
            \<and> sorted_wrt (\<lambda>a b. hslLightnessD a \<ge> hslLightnessD b) cs
            \<and> mset cs = mset (map (\<lambda>i. hslToRgbD
                                 (jsMod1 (dbl (hslHueD base + hueJitterD rnd (k0 + 2 * i))))
                                 (min 1 (max 0 (dbl (hslSaturationD base + saturationJitterD rnd (k0 + 2 * i + 1)))))
                                 (dbl (dbl 0.15 + dbl (dbl 0.7 * dbl (real i / (real n - 1)))))) [0..<n])"
    unfolding raw_def .
  from older have B: "\<exists>cs. generateColorVariationsD_App base n = map Some cs
            \<and> length cs = n
            \<and> sorted_wrt (\<lambda>a b. hslLightnessD a \<le> hslLightnessD b) cs
            \<and> mset cs = mset (map (\<lambda>i. hslToRgbD (hslHueD base) (hslSaturationD base)
                                 (dbl (dbl 0.1 + dbl (dbl (dbl 0.8 * real i) / (real n - 1))))) [0..<n])"
    unfolding raw'_def .
  have R: "\<forall>i < n. dbl 0.15 \<le> dbl (dbl 0.15 + dbl (dbl 0.7 * dbl (real i / (real n - 1))))
                 \<and> dbl (dbl 0.15 + dbl (dbl 0.7 * dbl (real i / (real n - 1)))) \<le> dbl 0.85
                 \<and> \<bar>dbl (dbl 0.15 + dbl (dbl 0.7 * dbl (real i / (real n - 1))))
                      - (0.15 + 0.7 * (real i / (real n - 1)))\<bar> \<le> 1 / 2 ^ 50"
    using ramp_range [OF assms(1)] ramp_near [OF assms(1)] by blast
  have R': "\<forall>i < n. \<bar>dbl (dbl 0.1 + dbl (dbl (dbl 0.8 * real i) / (real n - 1)))
                      - (0.1 + 0.8 * real i / (real n - 1))\<bar> \<le> 1 / 2 ^ 50"
    using ramp_App_near [OF assms(1)] by blast
  show ?thesis
    by (intro conjI) (rule A B R R' ramp_first ramp_last [OF assms(1)] ramp_App_first
        hueJitterD_bound saturationJitterD_bound jitter_constants)+
qed


text \<open>
  Four variations of \<open>[255,0,0]\<close> in the newer file when every random number is one
  half: \<open>[255,179,179]\<close>, \<open>[255,59,59]\<close>, \<open>[195,0,0]\<close>, \<open>[77,0,0]\<close>.
\<close>

lemma noJitterD: "hueJitterD noJitter k = 0" "saturationJitterD noJitter k = 0"
  by (simp_all add: hueJitterD_def saturationJitterD_def noJitter_value dbl_zero)

lemma pure_red_hslD: "rgbToHslD (255, 0, 0) = (0, 1, 1 / 2)"
  by (simp add: rgbToHslD_def hslOfUnitD_def dbl_run)

lemma pure_red_ramp:
  "variationAtD noJitter 0 0 1 4 0 = Some (77, 0, 0)"
  "variationAtD noJitter 0 0 1 4 (Suc 0) = Some (195, 0, 0)"
  "variationAtD noJitter 0 0 1 4 2 = Some (255, 59, 59)"
  "variationAtD noJitter 0 0 1 4 3 = Some (255, 179, 179)"
  by (simp_all add: variationAtD_def noJitterD jsDiv_def jsMod1_def hslToRgbD_def hslToUnitD_def
      hue2rgbD_def jsRound_def dbl_run)

lemma pure_red_lightness:
  "hslLightnessD (77, 0, 0) = 5439641902863187 / 36028797018963968"
  "hslLightnessD (195, 0, 0) = 860982281703183 / 2251799813685248"
  "hslLightnessD (255, 59, 59) = 1386402238229741 / 2251799813685248"
  "hslLightnessD (255, 179, 179) = 7664949954034491 / 9007199254740992"
  by (simp_all add: hslLightnessD_def rgbToHslD_def hslOfUnitD_def dbl_run)

lemma pure_red_variations:
  "fst (generateColorVariationsD noJitter 0 (255, 0, 0) 4)
     = [Some (255, 179, 179), Some (255, 59, 59), Some (195, 0, 0), Some (77, 0, 0)]"
proof -
  have u: "[0..<4] = [0, 1, 2, 3]" by (simp add: upt_rec)
  show ?thesis
    by (simp add: generateColorVariationsD_def pure_red_hslD u pure_red_ramp jsSort_def
        byLightnessDescendingD_def pure_red_lightness dbl_nonpos_iff)
qed

theorem C3_variations_witness:
  "(2 :: nat) \<le> 4 \<and> validColor (255, 0, 0)
   \<and> fst (generateColorVariationsD noJitter 0 (255, 0, 0) 4)
       = [Some (255, 179, 179), Some (255, 59, 59), Some (195, 0, 0), Some (77, 0, 0)]
   \<and> (\<exists>cs. fst (generateColorVariationsD noJitter 0 (255, 0, 0) 4) = map Some cs
          \<and> length cs = 4
          \<and> sorted_wrt (\<lambda>a b. hslLightnessD a \<ge> hslLightnessD b) cs)
   \<and> (\<exists>cs. generateColorVariationsD_App (255, 0, 0) 4 = map Some cs
          \<and> length cs = 4
          \<and> sorted_wrt (\<lambda>a b. hslLightnessD a \<le> hslLightnessD b) cs)"
proof -
  have h: "(2 :: nat) \<le> 4" by simp
  have v: "validColor (255, 0, 0)" by (simp add: validColor_def validChannel_def)
  from h v pure_red_variations C3_variations [OF h v, of noJitter 0 0] show ?thesis by blast
qed


text \<open>
  In \<open>src/App.jsx\<close> two variations of \<open>[200,30,30]\<close> are \<open>[44,7,7]\<close> and then
  \<open>[248,211,211]\<close>, of lightness 0.1 and 0.8999999999999999: the lightness ascends, and
  the first is made at the lightness 0.1, not 0.15.
\<close>

lemma red_hslD:
  "rgbToHslD (200, 30, 30) = (0, 3328747550665149 / 4503599627370496, 8124140504276189 / 18014398509481984)"
  by (simp add: rgbToHslD_def hslOfUnitD_def dbl_run)

lemma red_ramp_App:
  "variationAtD_App 0 (3328747550665149 / 4503599627370496) 2 0 = Some (44, 7, 7)"
  "variationAtD_App 0 (3328747550665149 / 4503599627370496) 2 (Suc 0) = Some (248, 211, 211)"
  by (simp_all add: variationAtD_App_def jsDiv_def hslToRgbD_def hslToUnitD_def
      hue2rgbD_def jsRound_def dbl_run)

lemma red_lightness:
  "hslLightnessD (44, 7, 7) = 3602879701896397 / 36028797018963968"
  "hslLightnessD (248, 211, 211) = 2026619832316723 / 2251799813685248"
  by (simp_all add: hslLightnessD_def rgbToHslD_def hslOfUnitD_def dbl_run)

theorem C3_variations_counterexample:
  "generateColorVariationsD_App (200, 30, 30) 2 = [Some (44, 7, 7), Some (248, 211, 211)]
   \<and> hslLightnessD (44, 7, 7) = 3602879701896397 / 36028797018963968
   \<and> hslLightnessD (248, 211, 211) = 2026619832316723 / 2251799813685248
   \<and> dbl (1 / 10) = 3602879701896397 / 36028797018963968
   \<and> dbl (3 / 20) = 5404319552844595 / 36028797018963968"
proof -
  have u: "[0..<2] = [0, 1]" by (simp add: upt_rec)
  have "generateColorVariationsD_App (200, 30, 30) 2 = [Some (44, 7, 7), Some (248, 211, 211)]"
    by (simp add: generateColorVariationsD_App_def red_hslD u red_ramp_App jsSort_def
        byLightnessAscendingD_def red_lightness dbl_nonpos_iff)
  moreover have "dbl (1 / 10) = 3602879701896397 / 36028797018963968"
    "dbl (3 / 20) = 5404319552844595 / 36028797018963968" by (simp_all add: dbl_run)
  ultimately show ?thesis by (simp add: red_lightness)
qed


text \<open>
  Two variations of \<open>[10,20,30]\<close> in \<open>src/App.jsx\<close>: the exact green channel of the
  darker one is 25.5, a tie of \<open>Math.round\<close>; the program computes a double below it
  and returns \<open>[13,25,38]\<close>.
\<close>

lemma blue_hslD:
  "rgbToHslD (10, 20, 30) = (5254199565265579 / 9007199254740992, 1 / 2, 1412894000743685 / 18014398509481984)"
  by (simp add: rgbToHslD_def hslOfUnitD_def dbl_run)

lemma blue_ramp_App:
  "variationAtD_App (5254199565265579 / 9007199254740992) (1 / 2) 2 0 = Some (13, 25, 38)"
  "variationAtD_App (5254199565265579 / 9007199254740992) (1 / 2) 2 (Suc 0) = Some (217, 230, 242)"
  by (simp_all add: variationAtD_App_def jsDiv_def hslToRgbD_def hslToUnitD_def
      hue2rgbD_def jsRound_def dbl_run)

lemma blue_lightness:
  "hslLightnessD (13, 25, 38) = 3602879701896397 / 36028797018963968"
  "hslLightnessD (217, 230, 242) = 2026619832316723 / 2251799813685248"
  by (simp_all add: hslLightnessD_def rgbToHslD_def hslOfUnitD_def dbl_run)

lemma blue_variations_App:
  "generateColorVariationsD_App (10, 20, 30) 2 = [Some (13, 25, 38), Some (217, 230, 242)]"
proof -
  have u: "[0..<2] = [0, 1]" by (simp add: upt_rec)
  show ?thesis
    by (simp add: generateColorVariationsD_App_def blue_hslD u blue_ramp_App jsSort_def
        byLightnessAscendingD_def blue_lightness dbl_nonpos_iff)
qed


text \<open>
  Claim C4, as amended.  Neither file has a special case for a count of 1: the quotient
  \<open>i / (numVariations - 1)\<close> is 0/0, and the one color returned has channels that are not
  finite numbers (the value \<open>None\<close>), for every seed and every source of random numbers.
  The range filter of the pipeline drops such a color.  With any other count and a seed
  with channels in 0..255, every color returned has finite channels.
\<close>

theorem C4_single_variation:
  "fst (generateColorVariations rnd k0 base 1) = [None]
   \<and> generateColorVariations_App base 1 = [None]
   \<and> filteredPalette [None] = []
   \<and> (n \<noteq> 1 \<and> validColor base \<longrightarrow>
         None \<notin> set (fst (generateColorVariations rnd k0 base n))
         \<and> None \<notin> set (generateColorVariations_App base n))"
proof -
  have "None \<notin> set (fst (generateColorVariations rnd k0 base n))
        \<and> None \<notin> set (generateColorVariations_App base n)" if "n \<noteq> 1"
    by (simp add: generateColorVariations_finite [OF that] generateColorVariations_App_finite [OF that])
  moreover have "filteredPalette [None] = []" by (simp add: filteredPalette_def)
  ultimately show ?thesis
    using generateColorVariations_single [of rnd k0 base] generateColorVariations_App_single [of base]
    by blast
qed

theorem C4_single_variation_witness:
  "(2 :: nat) \<noteq> 1 \<and> validColor (200, 30, 30)
   \<and> None \<notin> set (fst (generateColorVariations noJitter 0 (200, 30, 30) 2))
   \<and> fst (generateColorVariations noJitter 0 (200, 30, 30) 1) = [None]"
proof -
  have h: "(2 :: nat) \<noteq> 1" by simp
  have v: "validColor (200, 30, 30)" by (simp add: validColor_def validChannel_def)
  from h v C4_single_variation [of noJitter 0 "(200, 30, 30)" 2] show ?thesis by blast
qed


text \<open>One variation of \<open>[200,30,30]\<close> is a color without finite channels, in both files.\<close>

theorem C4_single_variation_counterexample:
  "fst (generateColorVariations noJitter 0 (200, 30, 30) 1) = [None]
   \<and> generateColorVariations_App (200, 30, 30) 1 = [None]"
  using generateColorVariations_single [of noJitter 0 "(200, 30, 30)"]
    generateColorVariations_App_single [of "(200, 30, 30)"]
  by blast


section \<open>Empty inputs\<close>

text \<open>
  The guards of \<open>kMeansClustering\<close> and the padding path of \<open>getDominantColors\<close>; an
  empty raw palette stays empty through the rest of the pipeline.
\<close>

lemma kMeans_empty: "fst (kMeansClustering rnd k0 timedOut [] k maxIterations sampleSize) = []"
  by (simp add: kMeansClustering_def)

lemma kMeans_zero: "fst (kMeansClustering rnd k0 timedOut pixels 0 maxIterations sampleSize) = []"
  by (simp add: kMeansClustering_def)

lemma getDominantColors_zero: "fst (getDominantColors rnd k0 timedOut pixels 0) = []"
  by (simp add: getDominantColors_def kMeans_zero)

lemma getDominantColors_empty:
  "fst (getDominantColors rnd k0 timedOut [] n) = replicate n (0, 0, 0)"
proof (cases n)
  case 0
  then show ?thesis by (simp add: getDominantColors_zero)
next
  case (Suc m)
  have "map (\<lambda>i. (0, 0, 0) :: rgb) [0..<n] = replicate n (0, 0, 0)"
    by (simp add: map_replicate_const)
  with Suc show ?thesis by (simp add: getDominantColors_def)
qed

lemma categoryStep_empty: "categoryStep rnd cfg [] st cat = st"
  by (cases st) (simp add: categoryStep_def)

lemma categorical_fold_empty: "foldl (categoryStep rnd cfg []) st cats = st"
  by (induction cats arbitrary: st) (simp_all add: categoryStep_empty)

lemma rawPalette_categorical_empty:
  "extractionMethod cfg = ''categorical'' \<Longrightarrow> rawPalette rnd timedOut cfg [] = []"
  by (simp add: rawPalette_def categorical_fold_empty)

lemma rawPalette_zero_count:
  assumes "extractionMethod cfg \<noteq> ''categorical''" "dominantColorCount cfg = 0"
  shows "rawPalette rnd timedOut cfg pixels = []"
proof -
  obtain seeds k where g: "getDominantColors rnd 0 timedOut pixels 0 = (seeds, k)"
    by (cases "getDominantColors rnd 0 timedOut pixels 0") auto
  with getDominantColors_zero [of rnd 0 timedOut pixels] have "seeds = []" by simp
  with assms g show ?thesis by (simp add: rawPalette_def)
qed

lemma finalPalette_of_empty_raw:
  "rawPalette rnd timedOut cfg pixels = [] \<Longrightarrow> finalPalette rnd timedOut cfg pixels = []"
  by (simp add: finalPalette_def harmonizeRaw_def filteredPalette_def filterSimilarColors_def
      uniqueColors_def)

text \<open>
  Claim C2, as amended.  A request for zero dominant colors gives no seed color, whatever
  the pixels, and then the raw and the final palette of the clustered method are empty.
  \<open>kMeansClustering\<close> returns no centroid for an empty pixel buffer, and for an empty
  pixel buffer the raw and the final palette of the categorical method are empty.  But
  \<open>getDominantColors\<close> with an empty pixel buffer and a count \<open>n\<close> takes the padding
  path, which comes before the clustering, and returns \<open>n\<close> times the color
  \<open>[0,0,0]\<close>.  All these functions are total: nothing fails.
\<close>

theorem C2_empty_inputs:
  "fst (getDominantColors rnd k0 timedOut pixels 0) = []
   \<and> fst (kMeansClustering rnd k0 timedOut pixels 0 maxIterations sampleSize) = []
   \<and> fst (kMeansClustering rnd k0 timedOut [] k maxIterations sampleSize) = []
   \<and> (extractionMethod cfg \<noteq> ''categorical'' \<and> dominantColorCount cfg = 0 \<longrightarrow>
        rawPalette rnd timedOut cfg pixels = [] \<and> finalPalette rnd timedOut cfg pixels = [])
   \<and> (extractionMethod cfg = ''categorical'' \<longrightarrow>
        rawPalette rnd timedOut cfg [] = [] \<and> finalPalette rnd timedOut cfg [] = [])
   \<and> fst (getDominantColors rnd k0 timedOut [] n) = replicate n (0, 0, 0)"
  using getDominantColors_zero [of rnd k0 timedOut pixels]
    kMeans_zero [of rnd k0 timedOut pixels maxIterations sampleSize]
    kMeans_empty [of rnd k0 timedOut k maxIterations sampleSize]
    rawPalette_zero_count [of cfg rnd timedOut pixels]
    rawPalette_categorical_empty [of cfg rnd timedOut]
    finalPalette_of_empty_raw [of rnd timedOut cfg]
    getDominantColors_empty [of rnd k0 timedOut n]
  by blast


theorem C2_empty_inputs_witness:
  "extractionMethod \<lparr> extractionMethod = ''categorical'', paletteType = ''analogous'', colorsPerHue = 10,
       dominantColorCount = 3, harmonizeModel = ''none'', similarityThreshold = 15 \<rparr> = ''categorical''
   \<and> finalPalette noJitter neverTimedOut
       \<lparr> extractionMethod = ''categorical'', paletteType = ''analogous'', colorsPerHue = 10,
         dominantColorCount = 3, harmonizeModel = ''none'', similarityThreshold = 15 \<rparr> [] = []
   \<and> extractionMethod \<lparr> extractionMethod = ''complementary'', paletteType = ''analogous'', colorsPerHue = 10,
       dominantColorCount = 0, harmonizeModel = ''none'', similarityThreshold = 15 \<rparr> \<noteq> ''categorical''
   \<and> dominantColorCount \<lparr> extractionMethod = ''complementary'', paletteType = ''analogous'', colorsPerHue = 10,
       dominantColorCount = 0, harmonizeModel = ''none'', similarityThreshold = 15 \<rparr> = 0
   \<and> finalPalette noJitter neverTimedOut
       \<lparr> extractionMethod = ''complementary'', paletteType = ''analogous'', colorsPerHue = 10,
         dominantColorCount = 0, harmonizeModel = ''none'', similarityThreshold = 15 \<rparr> [(200, 30, 30)] = []"
  using C2_empty_inputs [where rnd = noJitter and timedOut = neverTimedOut
      and pixels = "[(200, 30, 30)]" and cfg = "\<lparr> extractionMethod = ''complementary'',
         paletteType = ''analogous'', colorsPerHue = 10,
         dominantColorCount = 0, harmonizeModel = ''none'', similarityThreshold = 15 \<rparr>"]
    C2_empty_inputs [where rnd = noJitter and timedOut = neverTimedOut
      and cfg = "\<lparr> extractionMethod = ''categorical'', paletteType = ''analogous'', colorsPerHue = 10,
         dominantColorCount = 3, harmonizeModel = ''none'', similarityThreshold = 15 \<rparr>"]
  by simp

text \<open>
  With an empty pixel buffer and three dominant colors asked for, the seeds are three
  blacks.  With one asked for, three monochromatic colors per seed and the profile
  \<open>pastel\<close>, the black seed expands to three grays, \<open>pastel\<close> turns the first into
  \<open>[194,163,163]\<close>, and that color passes the range filter and is the first color of the
  final palette.
\<close>

lemma foldl_extends:
  assumes "\<And>acc c. \<exists>zs. step acc c = acc @ zs"
  shows "\<exists>ys. foldl step acc cs = acc @ ys"
proof (induction cs arbitrary: acc)
  case Nil
  then show ?case by simp
next
  case (Cons c cs)
  from assms obtain zs where z: "step acc c = acc @ zs" by blast
  from Cons.IH [of "acc @ zs"] obtain ys where "foldl step (acc @ zs) cs = (acc @ zs) @ ys" by blast
  with z show ?case by simp
qed

lemma filterSimilarColors_keeps_first:
  "\<exists>ys. filterSimilarColors (c # cs) threshold = c # ys"
proof (cases cs)
  case Nil
  then show ?thesis by (simp add: filterSimilarColors_def)
next
  case (Cons c' rest)
  have "\<exists>ys. foldl (keepUnlessSimilar threshold) [c] cs = [c] @ ys"
    by (rule foldl_extends) (simp add: keepUnlessSimilar_def)
  with Cons show ?thesis by (simp add: filterSimilarColors_def)
qed

lemma uniqueColors_keeps_first: "\<exists>ys. uniqueColors (c # cs) = c # ys"
proof -
  have "\<exists>ys. foldl (\<lambda>seen c. if c \<in> set seen then seen else seen @ [c]) [c] cs = [c] @ ys"
    by (rule foldl_extends) simp
  then show ?thesis by (simp add: uniqueColors_def)
qed

lemma black_hsl: "rgbToHsl (0, 0, 0) = (0, 0, 0)"
  by (simp add: rgbToHsl_def hslOfUnit_def)

lemma mono_black: "generateMonochromaticPalette (0, 0, 0) 3
  = [Some (38, 38, 38), Some (128, 128, 128), Some (217, 217, 217)]"
proof -
  have u: "[0..<3] = [0, 1, 2]" by (simp add: upt_rec)
  show ?thesis
    by (simp add: generateMonochromaticPalette_def black_hsl u monochromaticAt_def jsDiv_def
        hslToRgb_def hslToUnit_def jsRound_def)
qed

lemma dark_gray_hsl: "rgbToHsl (38, 38, 38) = (0, 0, 38 / 255)"
  by (simp add: rgbToHsl_def hslOfUnit_def)

lemma pastel_dark: "harmonizeColor (paramsOf ''pastel'') (38, 38, 38) = (194, 163, 163)"
  by (simp add: harmonizeColor_def dark_gray_hsl pastel adjustSaturation_def adjustLightness_def
      mkProfile_def scaleShift_def clampRange_def clampUnit_def hslToRgb_def hslToUnit_def
      hue2rgb_def Let_def jsRound_def)

lemma pastel_dark_inRange: "inRange (194, 163, 163)"
  by (simp add: inRange_def rgbToHsl_def hslOfUnit_def Let_def)


lemma seeds_empty_buffer: "getDominantColors rnd 0 timedOut [] (Suc 0) = ([(0, 0, 0)], Suc 0)"
  by (simp add: getDominantColors_def)

lemma raw_empty_buffer:
  "rawPalette rnd timedOut
     \<lparr> extractionMethod = ''complementary'', paletteType = ''monochromatic'', colorsPerHue = 3,
       dominantColorCount = 1, harmonizeModel = ''pastel'', similarityThreshold = 10 \<rparr> []
   = [Some (38, 38, 38), Some (128, 128, 128), Some (217, 217, 217)]"
  by (simp add: rawPalette_def seeds_empty_buffer dominantStep_def expandSeed_def mono_black)


theorem C2_empty_inputs_counterexample:
  "fst (getDominantColors noJitter 0 neverTimedOut [] 3) = [(0, 0, 0), (0, 0, 0), (0, 0, 0)]
   \<and> finalPalette noJitter neverTimedOut
         \<lparr> extractionMethod = ''complementary'', paletteType = ''monochromatic'', colorsPerHue = 3,
           dominantColorCount = 1, harmonizeModel = ''pastel'', similarityThreshold = 10 \<rparr> [] \<noteq> []
   \<and> hd (finalPalette noJitter neverTimedOut
         \<lparr> extractionMethod = ''complementary'', paletteType = ''monochromatic'', colorsPerHue = 3,
           dominantColorCount = 1, harmonizeModel = ''pastel'', similarityThreshold = 10 \<rparr> [])
       = (194, 163, 163)"
proof -
  have seeds: "fst (getDominantColors noJitter 0 neverTimedOut [] 3) = [(0, 0, 0), (0, 0, 0), (0, 0, 0)]"
    using getDominantColors_empty [of noJitter 0 neverTimedOut 3]
    by (simp add: numeral_3_eq_3)
  obtain fp where fp: "filteredPalette
      (harmonizeRaw [Some (38, 38, 38), Some (128, 128, 128), Some (217, 217, 217)] ''pastel'')
      = (194, 163, 163) # fp"
    by (simp add: filteredPalette_def harmonizeRaw_def pastel_dark pastel_dark_inRange)
  obtain ys where ys: "filterSimilarColors ((194, 163, 163) # fp) 10 = (194, 163, 163) # ys"
    using filterSimilarColors_keeps_first by blast
  obtain zs where zs: "uniqueColors ((194, 163, 163) # ys) = (194, 163, 163) # zs"
    using uniqueColors_keeps_first by blast
  have "finalPalette noJitter neverTimedOut
         \<lparr> extractionMethod = ''complementary'', paletteType = ''monochromatic'', colorsPerHue = 3,
           dominantColorCount = 1, harmonizeModel = ''pastel'', similarityThreshold = 10 \<rparr> []
        = (194, 163, 163) # zs"
    unfolding finalPalette_def Let_def raw_empty_buffer by (simp add: fp ys zs)
  with seeds show ?thesis by simp
qed


end
